theory Spec2Isabelle
  imports Complex_Main
begin

section \<open>Data model of \<^verbatim>\<open>fractal.py\<close>\<close>

text \<open>
  A batched tensor \<^verbatim>\<open>[B, C, H, W]\<close> is a list of \<open>B\<close> samples; a sample is the list of
  its \<open>C * H * W\<close> values. The join broadcasts its mask over the three inner axes, so it
  treats them as one. Tensor entries are 32-bit floats in the source; they are real
  numbers here.
\<close>

type_synonym sample = "real list"
type_synonym tensor = "sample list"

text \<open>
  The exceptions the modelled code can raise. \<open>NonFinite\<close> is not an exception: it marks
  a float division by zero, whose result (NaN or an infinity) is not a real number. The
  source goes on with such a tensor; the model stops there with this outcome, so that a
  division by zero is visible in the result.
\<close>

datatype error = ValueError | TypeError | IndexError | RuntimeError | ZeroDivisionError
  | OverflowError | NonFinite

subsection \<open>ConvBlock\<close>

text \<open>
  \<^verbatim>\<open>ConvBlock\<close> (pad, convolution, dropout, batch normalisation, ReLU) is a leaf
  transform. Its numeric kernels belong to the tensor library; a block keeps the
  function they compute together as \<open>cb_apply\<close>. The constructor's own logic is the
  check of the padding style and the choice whether a dropout layer exists.
\<close>

record ConvBlock =
  cb_C_in :: nat
  cb_C_out :: nat
  cb_dropout :: "real option"
  cb_apply :: "tensor \<Rightarrow> tensor"

definition ConvBlock_init ::
  "(tensor \<Rightarrow> tensor) \<Rightarrow> nat \<Rightarrow> nat \<Rightarrow> real option \<Rightarrow> string \<Rightarrow> error + ConvBlock" where
  "ConvBlock_init kern C_in C_out dropout pad_type =
     (if pad_type = ''zero'' \<or> pad_type = ''reflect'' then
        Inr \<lparr>cb_C_in = C_in, cb_C_out = C_out,
             cb_dropout = (case dropout of None \<Rightarrow> None
                           | Some p \<Rightarrow> if p > 0 then Some p else None),
             cb_apply = kern\<rparr>
      else Inl ValueError)"

subsection \<open>FractalBlock\<close>

record FractalBlock =
  n_columns :: nat
  columns :: "ConvBlock option list list"
  max_depth :: nat
  p_local_drop :: real
  doubler :: "ConvBlock option"
  count :: "nat list"
  training :: bool

text \<open>
  The inner loop of \<^verbatim>\<open>FractalBlock.__init__\<close> (lines 75 to 88): one pass over the
  depths \<open>i\<close> for the column \<open>col\<close>; \<open>dst\<close> is the source's \<^verbatim>\<open>dist\<close> and \<open>modul\<close> its
  \<^verbatim>\<open>module\<close>. \<open>kern i\<close> is the function computed by the ConvBlock created at depth \<open>i\<close>.
\<close>

fun build_column ::
  "(nat \<Rightarrow> tensor \<Rightarrow> tensor) \<Rightarrow> nat \<Rightarrow> nat \<Rightarrow> real option \<Rightarrow> string \<Rightarrow> bool \<Rightarrow> nat \<Rightarrow>
   nat list \<Rightarrow> ConvBlock option list \<Rightarrow> nat list \<Rightarrow> error + (ConvBlock option list \<times> nat list)" where
  "build_column kern C_in C_out p_dropout pad_type doubling dst [] col cnt = Inr (col, cnt)"
| "build_column kern C_in C_out p_dropout pad_type doubling dst (i # is) col cnt =
     (if dst = 0 then Inl ZeroDivisionError
      else if (i + 1) mod dst = 0 then
        (let first_block = (i + 1 = dst);
             cur_C_in = (if first_block \<and> \<not> doubling then C_in else C_out)
         in case ConvBlock_init (kern i) cur_C_in C_out p_dropout pad_type of
              Inl e \<Rightarrow> Inl e
            | Inr modul \<Rightarrow>
                if i < length cnt then
                  build_column kern C_in C_out p_dropout pad_type doubling dst is
                    (col @ [Some modul]) (cnt[i := cnt ! i + 1])
                else Inl IndexError)
      else build_column kern C_in C_out p_dropout pad_type doubling dst is (col @ [None]) cnt)"

text \<open>
  The outer loop (lines 74 to 90) over the columns, halving \<open>dst\<close> after each.
  \<open>kern c i\<close> is the function of the ConvBlock at column \<open>c\<close>, depth \<open>i\<close>.
\<close>

fun build_columns ::
  "(nat \<Rightarrow> nat \<Rightarrow> tensor \<Rightarrow> tensor) \<Rightarrow> nat \<Rightarrow> nat \<Rightarrow> real option \<Rightarrow> string \<Rightarrow> bool \<Rightarrow> nat \<Rightarrow>
   nat list \<Rightarrow> nat \<Rightarrow> ConvBlock option list list \<Rightarrow> nat list \<Rightarrow>
   error + (ConvBlock option list list \<times> nat list)" where
  "build_columns kern C_in C_out p_dropout pad_type doubling md [] dst cols cnt = Inr (cols, cnt)"
| "build_columns kern C_in C_out p_dropout pad_type doubling md (c # cs) dst cols cnt =
     (case build_column (kern c) C_in C_out p_dropout pad_type doubling dst [0..<md]
             (cols ! c) cnt of
        Inl e \<Rightarrow> Inl e
      | Inr (col, cnt') \<Rightarrow>
          build_columns kern C_in C_out p_dropout pad_type doubling md cs (dst div 2)
            (cols[c := col]) cnt')"

text \<open>
  \<^verbatim>\<open>FractalBlock.__init__\<close>. With \<open>n_columns = 0\<close> the source computes
  \<^verbatim>\<open>2 ** (-1) = 0.5\<close> and \<^verbatim>\<open>np.zeros([0.5])\<close> raises TypeError. The doubler is built
  with the default padding style, so its construction cannot fail. A new module is in
  training mode.
\<close>

definition FractalBlock_init ::
  "(nat \<Rightarrow> nat \<Rightarrow> tensor \<Rightarrow> tensor) \<Rightarrow> (tensor \<Rightarrow> tensor) \<Rightarrow>
   nat \<Rightarrow> nat \<Rightarrow> nat \<Rightarrow> real \<Rightarrow> real option \<Rightarrow> string \<Rightarrow> bool \<Rightarrow> error + FractalBlock" where
  "FractalBlock_init kern dkern n C_in C_out p_local p_dropout pad_type doubling =
     (if n = 0 then Inl TypeError
      else
        (let md = 2 ^ (n - 1);
             dbl = (if doubling then
                      (case ConvBlock_init dkern C_in C_out None ''zero'' of
                         Inl e \<Rightarrow> None | Inr d \<Rightarrow> Some d)
                    else None)
         in case build_columns kern C_in C_out p_dropout pad_type doubling md [0..<n] md
                   (replicate n []) (replicate md 0) of
              Inl e \<Rightarrow> Inl e
            | Inr (cols, cnt) \<Rightarrow>
                Inr \<lparr>n_columns = n, columns = cols, max_depth = md, p_local_drop = p_local,
                     doubler = dbl, count = cnt, training = True\<rparr>))"

subsection \<open>The random source\<close>

text \<open>
  \<^verbatim>\<open>np.random\<close> is the process-wide generator of the numerical library. Its state is
  modelled by the raw values it will deliver: \<open>g k\<close> is the \<open>k\<close>-th raw value still to
  come. A draw reads values from the front and returns the state advanced past them.
  Every outcome of a draw is delivered by some state (\<open>randint_reaches\<close> and
  \<open>binomial1_reaches\<close> below), so a property proved for all states holds for every
  run.
\<close>

type_synonym rng = "nat \<Rightarrow> nat"

definition advance :: "nat \<Rightarrow> rng \<Rightarrow> rng" where
  "advance n g = (\<lambda>k. g (k + n))"

text \<open>A raw value read as a number in \<open>[0, 1)\<close>.\<close>

definition uniform :: "nat \<Rightarrow> real" where
  "uniform u = real (u mod 2 ^ 53) / 2 ^ 53"

text \<open>
  \<^verbatim>\<open>np.random.binomial(1, p, [rows, cols])\<close>: a matrix of independent draws, each 1 with
  probability \<open>p\<close>. It raises ValueError when \<open>p\<close> is outside \<open>[0, 1]\<close> or a dimension is
  negative.
\<close>

definition binomial1 :: "real \<Rightarrow> nat \<Rightarrow> int \<Rightarrow> rng \<Rightarrow> error + (real list list \<times> rng)" where
  "binomial1 p rows cols g =
     (if p < 0 \<or> 1 < p \<or> cols < 0 then Inl ValueError
      else Inr (map (\<lambda>r. map (\<lambda>s. if uniform (g (r * nat cols + s)) < p then 1 else 0)
                           [0..<nat cols]) [0..<rows],
                advance (rows * nat cols) g))"

text \<open>
  \<^verbatim>\<open>np.random.randint(low, high, size)\<close>: \<open>sz\<close> (the size) integers in \<open>[low, high)\<close>. It raises
  ValueError when \<open>high \<le> low\<close> or the size is negative. (Later versions of the
  library return the empty array for size 0 before they compare the bounds; the source
  never calls it with \<open>high \<le> 0\<close>: a mask has at least one row and a block at least
  one column.)
\<close>

definition randint :: "int \<Rightarrow> int \<Rightarrow> int \<Rightarrow> rng \<Rightarrow> error + (int list \<times> rng)" where
  "randint low high sz g =
     (if high \<le> low \<or> sz < 0 then Inl ValueError
      else Inr (map (\<lambda>k. low + int (g k mod nat (high - low))) [0..<nat sz],
                advance (nat sz) g))"

subsection \<open>drop\_mask\<close>

text \<open>
  The assignment \<^verbatim>\<open>mask[rows, cols] = 1.\<close> through two index arrays: entry
  \<open>(r, k)\<close> of every listed pair becomes 1. A row index may be negative (it then counts
  from the end); an index out of range raises IndexError.
\<close>

fun scatter_ones :: "real list list \<Rightarrow> (int \<times> nat) list \<Rightarrow> error + real list list" where
  "scatter_ones m [] = Inr m"
| "scatter_ones m ((r, k) # ps) =
     (if r < - int (length m) \<or> int (length m) \<le> r then Inl IndexError
      else
        (let r' = nat (if r < 0 then r + int (length m) else r)
         in if length (m ! r') \<le> k then Inl IndexError
            else scatter_ones (m[r' := (m ! r')[k := 1]]) ps))"

text \<open>\<^verbatim>\<open>mask.sum(axis=0)\<close> of a matrix with \<open>n\<close> columns: the sum of every column.\<close>

definition sum_axis0 :: "real list list \<Rightarrow> nat \<Rightarrow> real list" where
  "sum_axis0 m n = map (\<lambda>s. sum_list (map (\<lambda>row. row ! s) m)) [0..<n]"

text \<open>
  \<^verbatim>\<open>FractalBlock.drop_mask\<close> (lines 92 to 123). \<open>B\<close> is the batch size, \<open>global_cols\<close>
  the integer array of globally chosen columns, \<open>n_cols\<close> the number of rows of the mask.
  The move of the mask to the module's device does not change its values.
\<close>

definition drop_mask ::
  "FractalBlock \<Rightarrow> nat \<Rightarrow> int list \<Rightarrow> nat \<Rightarrow> rng \<Rightarrow> error + (real list list \<times> rng)" where
  "drop_mask blk B global_cols n_cols g =
     (let GB = length global_cols;
          gdrop_cols = map (\<lambda>c. c - (int (n_columns blk) - int n_cols)) global_cols;
          gdrop_indices = filter (\<lambda>k. gdrop_cols ! k \<ge> 0) [0..<GB]
      in case scatter_ones (replicate n_cols (replicate GB 0))
                (map (\<lambda>k. (gdrop_cols ! k, k)) gdrop_indices) of
           Inl e \<Rightarrow> Inl e
         | Inr gdrop_mask \<Rightarrow>
             (let LB = int B - int GB
              in case binomial1 (1 - p_local_drop blk) n_cols LB g of
                   Inl e \<Rightarrow> Inl e
                 | Inr (ldrop_mask, g1) \<Rightarrow>
                     (let alive_count = sum_axis0 ldrop_mask (nat LB);
                          dead_indices = filter (\<lambda>s. alive_count ! s = 0) [0..<nat LB]
                      in case randint 0 (int n_cols) (int (length dead_indices)) g1 of
                           Inl e \<Rightarrow> Inl e
                         | Inr (picks, g2) \<Rightarrow>
                             (case scatter_ones ldrop_mask (zip picks dead_indices) of
                                Inl e \<Rightarrow> Inl e
                              | Inr ldrop_mask' \<Rightarrow>
                                  Inr (map2 (@) gdrop_mask ldrop_mask', g2)))))"

subsection \<open>join\<close>

text \<open>
  \<^verbatim>\<open>torch.stack\<close> raises RuntimeError on an empty list and on tensors of different
  shapes; otherwise the stacked tensor \<^verbatim>\<open>[n_cols, B, C, H, W]\<close> is the list itself.
\<close>

definition dims :: "tensor \<Rightarrow> nat list" where
  "dims t = map length t"

definition stack :: "tensor list \<Rightarrow> error + tensor list" where
  "stack outs =
     (if outs = [] then Inl RuntimeError
      else if list_all (\<lambda>t. dims t = dims (hd outs)) outs then Inr outs
      else Inl RuntimeError)"

text \<open>
  \<^verbatim>\<open>out.sum(dim=0)\<close> of a stacked tensor: entry \<open>f\<close> of sample \<open>b\<close> is the sum of that
  entry over the paths.
\<close>

definition sum_dim0 :: "tensor list \<Rightarrow> tensor" where
  "sum_dim0 ts =
     map (\<lambda>b. map (\<lambda>f. sum_list (map (\<lambda>t. t ! b ! f) ts)) [0..<length (hd ts ! b)])
       [0..<length (hd ts)]"

text \<open>\<^verbatim>\<open>out * masks\<close> with the mask \<^verbatim>\<open>[n_cols, B, 1, 1, 1]\<close> broadcast over each sample.\<close>

definition mul_mask :: "tensor list \<Rightarrow> real list list \<Rightarrow> tensor list" where
  "mul_mask out masks = map2 (\<lambda>t row. map2 (\<lambda>smp w. map (\<lambda>v. v * w) smp) t row) out masks"

text \<open>
  Division of \<^verbatim>\<open>[B, C, H, W]\<close> by \<^verbatim>\<open>[B, 1, 1, 1]\<close>: every entry of sample \<open>b\<close> is divided
  by the \<open>b\<close>-th divisor. An entry divided by 0 is NaN or an infinity in the source;
  here the outcome is \<open>NonFinite\<close>.
\<close>

definition div_alive :: "tensor \<Rightarrow> real list \<Rightarrow> error + tensor" where
  "div_alive t n_alive =
     (if list_ex (\<lambda>(smp, a). a = 0 \<and> smp \<noteq> []) (zip t n_alive) then Inl NonFinite
      else Inr (map2 (\<lambda>smp a. map (\<lambda>v. v / a) smp) t n_alive))"

text \<open>\<^verbatim>\<open>out.mean(dim=0)\<close>: the sum over the paths divided by their number.\<close>

definition mean_dim0 :: "tensor list \<Rightarrow> tensor" where
  "mean_dim0 ts = map (map (\<lambda>v. v / real (length ts))) (sum_dim0 ts)"

text \<open>\<^verbatim>\<open>FractalBlock.join\<close> (lines 125 to 144).\<close>

definition join ::
  "FractalBlock \<Rightarrow> tensor list \<Rightarrow> int list \<Rightarrow> rng \<Rightarrow> error + (tensor \<times> rng)" where
  "join blk outs global_cols g =
     (let n_cols = length outs
      in case stack outs of
           Inl e \<Rightarrow> Inl e
         | Inr out \<Rightarrow>
             if training blk then
               (case drop_mask blk (length (hd outs)) global_cols n_cols g of
                  Inl e \<Rightarrow> Inl e
                | Inr (masks, g') \<Rightarrow>
                    (let n_alive = sum_axis0 masks (length (hd outs));
                         masked_out = mul_mask out masks;
                         n_alive' = map (\<lambda>a. if a = 0 then 1 else a) n_alive
                     in case div_alive (sum_dim0 masked_out) n_alive' of
                          Inl e \<Rightarrow> Inl e
                        | Inr out' \<Rightarrow> Inr (out', g')))
             else Inr (mean_dim0 out, g))"

subsection \<open>FractalBlock.forward\<close>

text \<open>
  Lines 155 to 158: the transforms of the columns \<open>cs\<close> at depth \<open>i\<close>, each applied to
  the running output of its column. Calling an absent module (\<open>None\<close>) raises TypeError.
\<close>

fun apply_columns :: "FractalBlock \<Rightarrow> nat \<Rightarrow> tensor list \<Rightarrow> nat list \<Rightarrow> error + tensor list" where
  "apply_columns blk i outs [] = Inr []"
| "apply_columns blk i outs (c # cs) =
     (if length outs \<le> c \<or> length (columns blk) \<le> c \<or> length (columns blk ! c) \<le> i
      then Inl IndexError
      else
        (case columns blk ! c ! i of
           None \<Rightarrow> Inl TypeError
         | Some cur_module \<Rightarrow>
             (case apply_columns blk i outs cs of
                Inl e \<Rightarrow> Inl e
              | Inr cur_outs \<Rightarrow> Inr (cb_apply cur_module (outs ! c) # cur_outs))))"

text \<open>Lines 164 and 165: \<^verbatim>\<open>outs[c] = joined\<close> for every \<open>c\<close> of the range.\<close>

definition assign_joined :: "tensor list \<Rightarrow> nat list \<Rightarrow> tensor \<Rightarrow> tensor list" where
  "assign_joined outs cs joined = fold (\<lambda>c os. os[c := joined]) cs outs"

text \<open>
  The body of the loop over the depths (lines 150 to 165). The source subtracts
  integers; \<open>count ! i \<le> n_columns\<close> and \<open>1 \<le> n_columns\<close> hold in every constructed
  block, so the difference is never negative and the subtraction of naturals is the
  same.
\<close>

definition forward_step ::
  "FractalBlock \<Rightarrow> int list \<Rightarrow> bool \<Rightarrow> nat \<Rightarrow> tensor list \<Rightarrow> rng \<Rightarrow> error + (tensor list \<times> rng)" where
  "forward_step blk global_cols deepest i outs g =
     (if length (count blk) \<le> i then Inl IndexError
      else
        (let st = (if deepest then n_columns blk - 1 else n_columns blk - count blk ! i)
         in case apply_columns blk i outs [st..<n_columns blk] of
              Inl e \<Rightarrow> Inl e
            | Inr cur_outs \<Rightarrow>
                (case join blk cur_outs global_cols g of
                   Inl e \<Rightarrow> Inl e
                 | Inr (joined, g') \<Rightarrow>
                     Inr (assign_joined outs [st..<n_columns blk] joined, g'))))"

fun forward_loop ::
  "FractalBlock \<Rightarrow> int list \<Rightarrow> bool \<Rightarrow> nat list \<Rightarrow> tensor list \<Rightarrow> rng \<Rightarrow> error + (tensor list \<times> rng)" where
  "forward_loop blk global_cols deepest [] outs g = Inr (outs, g)"
| "forward_loop blk global_cols deepest (i # is) outs g =
     (case forward_step blk global_cols deepest i outs g of
        Inl e \<Rightarrow> Inl e
      | Inr (outs', g') \<Rightarrow> forward_loop blk global_cols deepest is outs' g')"

text \<open>\<^verbatim>\<open>FractalBlock.forward\<close> (lines 146 to 167).\<close>

definition FractalBlock_forward ::
  "FractalBlock \<Rightarrow> tensor \<Rightarrow> int list \<Rightarrow> bool \<Rightarrow> rng \<Rightarrow> error + (tensor \<times> rng)" where
  "FractalBlock_forward blk x global_cols deepest g =
     (let out = (case doubler blk of Some d \<Rightarrow> cb_apply d x | None \<Rightarrow> x);
          outs = replicate (n_columns blk) out
      in case forward_loop blk global_cols deepest [0..<max_depth blk] outs g of
           Inl e \<Rightarrow> Inl e
         | Inr (outs', g') \<Rightarrow>
             if outs' = [] then Inl IndexError else Inr (outs' ! 0, g'))"

subsection \<open>FractalNet.forward\<close>

text \<open>
  A layer of the network is a FractalBlock or another module (pooling, flatten, the
  linear head), which is a function of the tensor library.
\<close>

datatype layer = Fractal FractalBlock | Plain "tensor \<Rightarrow> tensor"

record FractalNet =
  layers :: "layer list"
  consist_gdrop :: bool
  gdrop_ratio :: real
  net_n_columns :: nat

text \<open>Python's \<^verbatim>\<open>int\<close> of a float: truncation toward zero.\<close>

definition py_int :: "real \<Rightarrow> int" where
  "py_int r = (if 0 \<le> r then \<lfloor>r\<rfloor> else \<lceil>r\<rceil>)"

text \<open>
  Line 242 multiplies two 64-bit floats: the batch size converted to a float, and the
  ratio. The result of a float operation is the exact result rounded to the nearest
  float, ties to the even significand. A float has 53 significant bits; its spacing is
  \<open>2 ^ (e - 52)\<close> for a magnitude in \<open>[2 ^ e, 2 ^ (e + 1))\<close> and never below
  \<open>2 ^ (- 1074)\<close>; a magnitude of \<open>2 ^ 1024\<close> or more is an infinity.

  \<open>ilog2 n\<close> is the floor of the binary logarithm of \<open>n \<ge> 1\<close>, \<open>pow2 e\<close> is \<open>2 ^ e\<close> for
  an integer \<open>e\<close>, and \<open>float_exponent x\<close> is the \<open>e\<close> with \<open>2 ^ e \<le> x < 2 ^ (e + 1)\<close>
  for \<open>x > 0\<close>.
\<close>

fun ilog2 :: "nat \<Rightarrow> nat" where
  "ilog2 n = (if n < 2 then 0 else Suc (ilog2 (n div 2)))"

declare ilog2.simps [simp del]

definition pow2 :: "int \<Rightarrow> real" where
  "pow2 e = (if 0 \<le> e then 2 ^ nat e else 1 / 2 ^ nat (- e))"

definition float_exponent :: "real \<Rightarrow> int" where
  "float_exponent x =
     (if 1 \<le> x then int (ilog2 (nat \<lfloor>x\<rfloor>))
      else - int (Suc (ilog2 (nat \<lceil>1 / x\<rceil> - 1))))"

text \<open>Rounding to the nearest integer, ties to the even one.\<close>

definition round_even :: "real \<Rightarrow> int" where
  "round_even y =
     (let f = \<lfloor>y\<rfloor>; d = y - of_int f
      in if d < 1 / 2 then f else if 1 / 2 < d then f + 1
         else if even f then f else f + 1)"

text \<open>
  The nearest 64-bit float of a real number; \<open>None\<close> when it is an infinity.
\<close>

definition round64 :: "real \<Rightarrow> real option" where
  "round64 x =
     (if x = 0 then Some 0
      else
        (let q = pow2 (max (float_exponent \<bar>x\<bar>) (- 1022) - 52);
             r = of_int (round_even (x / q)) * q
         in if pow2 1024 \<le> \<bar>r\<bar> then None else Some r))"

text \<open>
  Line 242: \<^verbatim>\<open>GB = int(x.size(0) * self.gdrop_ratio)\<close>. The batch size is converted
  to a float; the field \<open>gdrop_ratio\<close> is a float, the one nearest to the number the
  network was configured with; the product is a float operation, and \<^verbatim>\<open>int\<close> truncates
  it. Python raises OverflowError when the integer is too large for a float and when
  \<^verbatim>\<open>int\<close> is applied to an infinity, and ValueError when it is applied to the product
  of zero and an infinity, which is not a number.
\<close>

definition compute_GB :: "FractalNet \<Rightarrow> tensor \<Rightarrow> error + int" where
  "compute_GB net x =
     (case round64 (real (length x)) of
        None \<Rightarrow> Inl OverflowError
      | Some b \<Rightarrow>
          (case round64 (gdrop_ratio net) of
             None \<Rightarrow> (if b = 0 then Inl ValueError else Inl OverflowError)
           | Some r \<Rightarrow>
               (case round64 (b * r) of
                  None \<Rightarrow> Inl OverflowError
                | Some p \<Rightarrow> Inr (py_int p))))"

text \<open>
  The loop of \<^verbatim>\<open>FractalNet.forward\<close> (lines 245 to 252); the variable
  \<^verbatim>\<open>global_cols\<close> is \<open>None\<close> until the first sampling.
\<close>

fun net_loop ::
  "FractalNet \<Rightarrow> int \<Rightarrow> bool \<Rightarrow> layer list \<Rightarrow> tensor \<Rightarrow> int list option \<Rightarrow> rng \<Rightarrow>
   error + (tensor \<times> int list option \<times> rng)" where
  "net_loop net GB deepest [] out global_cols g = Inr (out, global_cols, g)"
| "net_loop net GB deepest (Plain f # ls) out global_cols g =
     net_loop net GB deepest ls (f out) global_cols g"
| "net_loop net GB deepest (Fractal blk # ls) out global_cols g =
     (case (if \<not> consist_gdrop net \<or> global_cols = None
            then randint 0 (int (net_n_columns net)) GB g
            else Inr (the global_cols, g)) of
        Inl e \<Rightarrow> Inl e
      | Inr (gc, g1) \<Rightarrow>
          (case FractalBlock_forward blk out gc deepest g1 of
             Inl e \<Rightarrow> Inl e
           | Inr (out', g2) \<Rightarrow> net_loop net GB deepest ls out' (Some gc) g2))"

text \<open>\<^verbatim>\<open>FractalNet.forward\<close> (lines 241 to 254).\<close>

definition FractalNet_forward ::
  "FractalNet \<Rightarrow> tensor \<Rightarrow> bool \<Rightarrow> rng \<Rightarrow> error + (tensor \<times> rng)" where
  "FractalNet_forward net x deepest g =
     (case compute_GB net x of
        Inl e \<Rightarrow> Inl e
      | Inr GB \<Rightarrow>
          (case net_loop net GB deepest (layers net) x None g of
             Inl e \<Rightarrow> Inl e
           | Inr (out, global_cols, g') \<Rightarrow> Inr (out, g')))"

section \<open>The policy of the global choice, in the words of the specification\<close>

text \<open>
  The specification describes a forward pass of the network in two modes. These
  definitions follow its words; the theorem of claim C8 compares them with
  \<open>FractalNet_forward\<close>, which follows the source.

  \<open>spec_pass_with\<close>: every block of the remaining layers receives the same choice
  \<open>gc\<close>, and no choice is sampled.
\<close>

fun spec_pass_with ::
  "bool \<Rightarrow> int list \<Rightarrow> layer list \<Rightarrow> tensor \<Rightarrow> rng \<Rightarrow> error + (tensor \<times> rng)" where
  "spec_pass_with deepest gc [] out g = Inr (out, g)"
| "spec_pass_with deepest gc (Plain f # ls) out g = spec_pass_with deepest gc ls (f out) g"
| "spec_pass_with deepest gc (Fractal blk # ls) out g =
     (case FractalBlock_forward blk out gc deepest g of
        Inl e \<Rightarrow> Inl e
      | Inr (out', g') \<Rightarrow> spec_pass_with deepest gc ls out' g')"

text \<open>
  Consistent global drop: one choice of length \<open>GB\<close> is sampled before the first block and
  reused by every block of the pass.
\<close>

fun spec_pass_consistent ::
  "nat \<Rightarrow> int \<Rightarrow> bool \<Rightarrow> layer list \<Rightarrow> tensor \<Rightarrow> rng \<Rightarrow> error + (tensor \<times> rng)" where
  "spec_pass_consistent n GB deepest [] out g = Inr (out, g)"
| "spec_pass_consistent n GB deepest (Plain f # ls) out g =
     spec_pass_consistent n GB deepest ls (f out) g"
| "spec_pass_consistent n GB deepest (Fractal blk # ls) out g =
     (case randint 0 (int n) GB g of
        Inl e \<Rightarrow> Inl e
      | Inr (gc, g1) \<Rightarrow> spec_pass_with deepest gc (Fractal blk # ls) out g1)"

text \<open>Otherwise a fresh choice of length \<open>GB\<close> is sampled before every block.\<close>

fun spec_pass_resampling ::
  "nat \<Rightarrow> int \<Rightarrow> bool \<Rightarrow> layer list \<Rightarrow> tensor \<Rightarrow> rng \<Rightarrow> error + (tensor \<times> rng)" where
  "spec_pass_resampling n GB deepest [] out g = Inr (out, g)"
| "spec_pass_resampling n GB deepest (Plain f # ls) out g =
     spec_pass_resampling n GB deepest ls (f out) g"
| "spec_pass_resampling n GB deepest (Fractal blk # ls) out g =
     (case randint 0 (int n) GB g of
        Inl e \<Rightarrow> Inl e
      | Inr (gc, g1) \<Rightarrow>
          (case FractalBlock_forward blk out gc deepest g1 of
             Inl e \<Rightarrow> Inl e
           | Inr (out', g2) \<Rightarrow> spec_pass_resampling n GB deepest ls out' g2))"

text \<open>The pass of the specification for a network and a length \<open>GB\<close> of the choice.\<close>

definition spec_forward ::
  "FractalNet \<Rightarrow> int \<Rightarrow> tensor \<Rightarrow> bool \<Rightarrow> rng \<Rightarrow> error + (tensor \<times> rng)" where
  "spec_forward net GB x deepest g =
     (if consist_gdrop net
      then spec_pass_consistent (net_n_columns net) GB deepest (layers net) x g
      else spec_pass_resampling (net_n_columns net) GB deepest (layers net) x g)"

section \<open>Auxiliary definitions for the proofs\<close>

definition pad_ok :: "string \<Rightarrow> bool" where
  "pad_ok pad_type = (pad_type = ''zero'' \<or> pad_type = ''reflect'')"

definition slot ::
  "(nat \<Rightarrow> tensor \<Rightarrow> tensor) \<Rightarrow> nat \<Rightarrow> nat \<Rightarrow> real option \<Rightarrow> bool \<Rightarrow> nat \<Rightarrow> nat \<Rightarrow> ConvBlock option" where
  "slot kern C_in C_out p_dropout doubling dst i =
     (if (i + 1) mod dst = 0 then
        Some \<lparr>cb_C_in = (if i + 1 = dst \<and> \<not> doubling then C_in else C_out), cb_C_out = C_out,
              cb_dropout = (case p_dropout of None \<Rightarrow> None
                            | Some p \<Rightarrow> if p > 0 then Some p else None),
              cb_apply = kern i\<rparr>
      else None)"

text \<open>The row an index array entry \<open>q\<close> selects in a matrix of \<open>R\<close> rows.\<close>

definition row_of :: "nat \<Rightarrow> int \<Rightarrow> nat" where
  "row_of R q = nat (if q < 0 then q + int R else q)"

text \<open>The network after \<^verbatim>\<open>eval()\<close>: no block is in training mode.\<close>

definition inference_mode :: "FractalNet \<Rightarrow> bool" where
  "inference_mode net =
     list_all (\<lambda>l. case l of Fractal blk \<Rightarrow> \<not> training blk | Plain f \<Rightarrow> True) (layers net)"

text \<open>The result of the loop of the network without the variable \<^verbatim>\<open>global_cols\<close>.\<close>

definition drop_cols ::
  "error + (tensor \<times> int list option \<times> rng) \<Rightarrow> error + (tensor \<times> rng)" where
  "drop_cols r = (case r of Inl e \<Rightarrow> Inl e | Inr (out, global_cols, g') \<Rightarrow> Inr (out, g'))"

text \<open>
  Concrete blocks for the closed instances below: every leaf at column \<open>c\<close> maps each
  entry \<open>v\<close> to \<open>2 * v + c + 1\<close>.
\<close>

definition ex_kern :: "nat \<Rightarrow> nat \<Rightarrow> tensor \<Rightarrow> tensor" where
  "ex_kern c i = map (map (\<lambda>v. 2 * v + real (c + 1)))"

definition ex_block2 :: FractalBlock where
  "ex_block2 = projr (FractalBlock_init ex_kern id 2 3 16 (1 / 2) None ''zero'' False)"

definition ex_block3 :: FractalBlock where
  "ex_block3 = projr (FractalBlock_init ex_kern id 3 3 16 (1 / 2) None ''zero'' False)"

text \<open>A state of the random source for the closed instances.\<close>

definition ex_rng :: rng where
  "ex_rng k = 7 * k + 3"

text \<open>The block after \<^verbatim>\<open>eval()\<close>: inference mode.\<close>

definition ex_block3_eval :: FractalBlock where
  "ex_block3_eval = ex_block3\<lparr>training := False\<rparr>"

definition ex_block2_eval :: FractalBlock where
  "ex_block2_eval = ex_block2\<lparr>training := False\<rparr>"

text \<open>A second state of the random source, and two small networks in inference mode.\<close>

definition ex_rng2 :: rng where
  "ex_rng2 k = k + 1"

definition ex_net :: FractalNet where
  "ex_net = \<lparr>layers = [Fractal ex_block2_eval, Plain (map (map (\<lambda>v. v / 2)))],
             consist_gdrop = False, gdrop_ratio = 1 / 2, net_n_columns = 2\<rparr>"

definition ex_net_consistent :: FractalNet where
  "ex_net_consistent =
     \<lparr>layers = [Fractal ex_block2_eval, Plain (map (map (\<lambda>v. v / 2))), Fractal ex_block2_eval],
       consist_gdrop = True, gdrop_ratio = 1 / 2, net_n_columns = 2\<rparr>"

text \<open>
  Networks with the ratios - 0.25, 0.7 and 0.29.
\<close>

definition ex_net_negative :: FractalNet where
  "ex_net_negative = ex_net\<lparr>gdrop_ratio := - (1 / 4)\<rparr>"

definition ex_net_07 :: FractalNet where
  "ex_net_07 = ex_net\<lparr>gdrop_ratio := 7 / 10\<rparr>"

definition ex_net_029 :: FractalNet where
  "ex_net_029 = ex_net\<lparr>gdrop_ratio := 29 / 100\<rparr>"

section \<open>The schedule built by the constructor\<close>

lemma build_column_ok:
  assumes "pad_ok pad_type" "0 < dst" "distinct is" "\<forall>k\<in>set is. k < length cnt"
  shows "\<exists>cnt'. build_column kern C_in C_out p_dropout pad_type doubling dst is col cnt
           = Inr (col @ map (slot kern C_in C_out p_dropout doubling dst) is, cnt')
         \<and> length cnt' = length cnt
         \<and> (\<forall>j<length cnt. cnt' ! j = cnt ! j + (if j \<in> set is \<and> (j + 1) mod dst = 0 then 1 else 0))"
  using assms
proof (induction "is" arbitrary: col cnt)
  case Nil
  then show ?case by simp
next
  case (Cons i "is")
  show ?case
  proof (cases "(i + 1) mod dst = 0")
    case True
    from Cons.prems have d: "distinct is" and ni: "i \<notin> set is" by auto
    have b: "\<forall>k\<in>set is. k < length (cnt[i := cnt ! i + 1])" using Cons.prems(4) by simp
    from Cons.prems(4) have il: "i < length cnt" by simp
    from Cons.IH[OF Cons.prems(1,2) d b, of "col @ [slot kern C_in C_out p_dropout doubling dst i]"]
    obtain cnt' where
      h: "build_column kern C_in C_out p_dropout pad_type doubling dst is
            (col @ [slot kern C_in C_out p_dropout doubling dst i]) (cnt[i := cnt ! i + 1])
          = Inr ((col @ [slot kern C_in C_out p_dropout doubling dst i]) @ map (slot kern C_in C_out p_dropout doubling dst) is, cnt')"
      and l: "length cnt' = length (cnt[i := cnt ! i + 1])"
      and v: "\<forall>j<length (cnt[i := cnt ! i + 1]). cnt' ! j = (cnt[i := cnt ! i + 1]) ! j + (if j \<in> set is \<and> (j + 1) mod dst = 0 then 1 else 0)"
      by blast
    have "build_column kern C_in C_out p_dropout pad_type doubling dst (i # is) col cnt
           = Inr (col @ map (slot kern C_in C_out p_dropout doubling dst) (i # is), cnt')"
      using True Cons.prems(1,2) h il
      by (simp add: slot_def ConvBlock_init_def pad_ok_def Let_def)
    moreover have "length cnt' = length cnt" using l by simp
    moreover have "\<forall>j<length cnt. cnt' ! j = cnt ! j + (if j \<in> set (i # is) \<and> (j + 1) mod dst = 0 then 1 else 0)"
    proof (intro allI impI)
      fix j assume jl: "j < length cnt"
      show "cnt' ! j = cnt ! j + (if j \<in> set (i # is) \<and> (j + 1) mod dst = 0 then 1 else 0)"
      proof (cases "j = i")
        case True
        with v jl ni \<open>(i + 1) mod dst = 0\<close> show ?thesis by simp
      next
        case False
        with v jl show ?thesis by simp
      qed
    qed
    ultimately show ?thesis by blast
  next
    case False
    from Cons.prems have d: "distinct is" and ni: "i \<notin> set is" by auto
    have b: "\<forall>k\<in>set is. k < length cnt" using Cons.prems(4) by simp
    from Cons.IH[OF Cons.prems(1,2) d b, of "col @ [None]"]
    obtain cnt' where
      h: "build_column kern C_in C_out p_dropout pad_type doubling dst is (col @ [None]) cnt
          = Inr ((col @ [None]) @ map (slot kern C_in C_out p_dropout doubling dst) is, cnt')"
      and l: "length cnt' = length cnt"
      and v: "\<forall>j<length cnt. cnt' ! j = cnt ! j + (if j \<in> set is \<and> (j + 1) mod dst = 0 then 1 else 0)"
      by blast
    have "build_column kern C_in C_out p_dropout pad_type doubling dst (i # is) col cnt
           = Inr (col @ map (slot kern C_in C_out p_dropout doubling dst) (i # is), cnt')"
      using False Cons.prems(1,2) h by (simp add: slot_def)
    moreover have "\<forall>j<length cnt. cnt' ! j = cnt ! j + (if j \<in> set (i # is) \<and> (j + 1) mod dst = 0 then 1 else 0)"
      using v False by auto
    ultimately show ?thesis using l by blast
  qed
qed


lemma upt_active_card:
  "card {c. a \<le> c \<and> c < n \<and> P c} = (if a < n \<and> P a then 1 else 0) + card {c. Suc a \<le> c \<and> c < n \<and> P c}"
proof -
  have fin: "finite {c. Suc a \<le> c \<and> c < n \<and> P c}" by simp
  show ?thesis
  proof (cases "a < n \<and> P a")
    case True
    then have "{c. a \<le> c \<and> c < n \<and> P c} = insert a {c. Suc a \<le> c \<and> c < n \<and> P c}"
      by (auto simp: Suc_le_eq le_less)
    moreover have "a \<notin> {c. Suc a \<le> c \<and> c < n \<and> P c}" by simp
    ultimately show ?thesis using True fin by simp
  next
    case False
    then have "{c. a \<le> c \<and> c < n \<and> P c} = {c. Suc a \<le> c \<and> c < n \<and> P c}"
      by (auto simp: Suc_le_eq le_less)
    then show ?thesis using False by simp
  qed
qed

lemma build_columns_ok:
  assumes "pad_ok pad_type" "a \<le> n" "length cols = n" "length cnt = 2 ^ (n - 1)"
  shows "\<exists>cols' cnt'.
           build_columns kern C_in C_out p_dropout pad_type doubling (2 ^ (n - 1)) [a..<n]
             (2 ^ (n - 1) div 2 ^ a) cols cnt = Inr (cols', cnt')
         \<and> length cols' = n
         \<and> (\<forall>c<a. cols' ! c = cols ! c)
         \<and> (\<forall>c. a \<le> c \<and> c < n \<longrightarrow>
               cols' ! c = cols ! c @ map (slot (kern c) C_in C_out p_dropout doubling (2 ^ (n - 1 - c)))
                             [0..<2 ^ (n - 1)])
         \<and> length cnt' = 2 ^ (n - 1)
         \<and> (\<forall>j<2 ^ (n - 1). cnt' ! j
               = cnt ! j + card {c. a \<le> c \<and> c < n \<and> (j + 1) mod 2 ^ (n - 1 - c) = 0})"
  using assms
proof (induction "n - a" arbitrary: a cols cnt)
  case 0
  then have "a = n" by simp
  then show ?case using 0 by simp
next
  case (Suc k)
  then have an: "a < n" and k: "k = n - Suc a" by simp_all
  let ?md = "2 ^ (n - 1) :: nat"
  have "(2::nat) ^ (n - 1 - a) = 2 ^ (n - 1) div 2 ^ a"
    by (rule power_diff) (use an in simp_all)
  then have dst: "?md div 2 ^ a = 2 ^ (n - 1 - a)" by simp
  have dpos: "(0::nat) < 2 ^ (n - 1 - a)" by simp
  have rng: "\<forall>k\<in>set [0..<?md]. k < length cnt" using Suc.prems(4) by simp
  from build_column_ok[OF Suc.prems(1) dpos _ rng, of "kern a" C_in C_out p_dropout doubling "cols ! a"]
  obtain cnt1 where
    c1: "build_column (kern a) C_in C_out p_dropout pad_type doubling (2 ^ (n - 1 - a)) [0..<?md]
           (cols ! a) cnt
         = Inr (cols ! a @ map (slot (kern a) C_in C_out p_dropout doubling (2 ^ (n - 1 - a))) [0..<?md], cnt1)"
    and l1: "length cnt1 = length cnt"
    and v1: "\<forall>j<length cnt. cnt1 ! j = cnt ! j + (if j \<in> set [0..<?md] \<and> (j + 1) mod 2 ^ (n - 1 - a) = 0 then 1 else 0)"
    by auto
  let ?col = "cols ! a @ map (slot (kern a) C_in C_out p_dropout doubling (2 ^ (n - 1 - a))) [0..<?md]"
  have dst2: "?md div 2 ^ a div 2 = ?md div 2 ^ Suc a"
    by (simp only: power_Suc2 div_mult2_eq)
  have p2: "Suc a \<le> n" using an by simp
  have p3: "length (cols[a := ?col]) = n" using Suc.prems(3) by simp
  have p4: "length cnt1 = 2 ^ (n - 1)" using l1 Suc.prems(4) by simp
  from Suc.hyps(1)[OF k Suc.prems(1) p2 p3 p4]
  obtain cols' cnt' where
    r: "build_columns kern C_in C_out p_dropout pad_type doubling ?md [Suc a..<n]
          (?md div 2 ^ Suc a) (cols[a := ?col]) cnt1 = Inr (cols', cnt')"
    and rl: "length cols' = n"
    and rlo: "\<forall>c<Suc a. cols' ! c = (cols[a := ?col]) ! c"
    and rhi: "\<forall>c. Suc a \<le> c \<and> c < n \<longrightarrow>
                cols' ! c = (cols[a := ?col]) ! c @ map (slot (kern c) C_in C_out p_dropout doubling (2 ^ (n - 1 - c))) [0..<?md]"
    and rcl: "length cnt' = ?md"
    and rcv: "\<forall>j<?md. cnt' ! j = cnt1 ! j + card {c. Suc a \<le> c \<and> c < n \<and> (j + 1) mod 2 ^ (n - 1 - c) = 0}"
    by blast
  have run: "build_columns kern C_in C_out p_dropout pad_type doubling ?md [a..<n]
               (?md div 2 ^ a) cols cnt = Inr (cols', cnt')"
    using an c1 r dst dst2 by (simp add: upt_conv_Cons)
  have lo: "\<forall>c<a. cols' ! c = cols ! c"
    using rlo by simp
  have hi: "\<forall>c. a \<le> c \<and> c < n \<longrightarrow>
              cols' ! c = cols ! c @ map (slot (kern c) C_in C_out p_dropout doubling (2 ^ (n - 1 - c))) [0..<?md]"
  proof (intro allI impI)
    fix c assume c: "a \<le> c \<and> c < n"
    show "cols' ! c = cols ! c @ map (slot (kern c) C_in C_out p_dropout doubling (2 ^ (n - 1 - c))) [0..<?md]"
    proof (cases "c = a")
      case True
      then show ?thesis using rlo an Suc.prems(3) by simp
    next
      case False
      then have "Suc a \<le> c \<and> c < n" using c by simp
      then show ?thesis using rhi False by simp
    qed
  qed
  have cv: "\<forall>j<?md. cnt' ! j = cnt ! j + card {c. a \<le> c \<and> c < n \<and> (j + 1) mod 2 ^ (n - 1 - c) = 0}"
  proof (intro allI impI)
    fix j assume j: "j < ?md"
    have "cnt' ! j = cnt1 ! j + card {c. Suc a \<le> c \<and> c < n \<and> (j + 1) mod 2 ^ (n - 1 - c) = 0}"
      using rcv j by simp
    moreover have "cnt1 ! j = cnt ! j + (if (j + 1) mod 2 ^ (n - 1 - a) = 0 then 1 else 0)"
      using v1 j Suc.prems(4) by simp
    moreover have "card {c. a \<le> c \<and> c < n \<and> (j + 1) mod 2 ^ (n - 1 - c) = 0}
        = (if a < n \<and> (j + 1) mod 2 ^ (n - 1 - a) = 0 then 1 else 0)
          + card {c. Suc a \<le> c \<and> c < n \<and> (j + 1) mod 2 ^ (n - 1 - c) = 0}"
      by (rule upt_active_card)
    ultimately show "cnt' ! j = cnt ! j + card {c. a \<le> c \<and> c < n \<and> (j + 1) mod 2 ^ (n - 1 - c) = 0}"
      using an by simp
  qed
  from run rl lo hi rcl cv show ?case by blast
qed

lemma build_column_bad:
  assumes "\<not> pad_ok pad_type" "\<exists>i\<in>set is. (i + 1) mod dst = 0"
  shows "\<exists>e. build_column kern C_in C_out p_dropout pad_type doubling dst is col cnt = Inl e"
  using assms
proof (induction "is" arbitrary: col cnt)
  case Nil
  then show ?case by simp
next
  case (Cons i "is")
  show ?case
  proof (cases "dst = 0")
    case True
    then show ?thesis by simp
  next
    case dz: False
    show ?thesis
    proof (cases "(i + 1) mod dst = 0")
      case True
      then show ?thesis using dz Cons.prems(1)
        by (simp add: ConvBlock_init_def pad_ok_def Let_def)
    next
      case False
      then have "\<exists>i\<in>set is. (i + 1) mod dst = 0" using Cons.prems(2) by auto
      from Cons.IH[OF Cons.prems(1) this] show ?thesis using False dz by simp
    qed
  qed
qed

lemma FractalBlock_init_pad:
  assumes "FractalBlock_init kern dkern n C_in C_out p_local p_dropout pad_type doubling = Inr blk"
  shows "0 < n \<and> pad_ok pad_type"
proof -
  have n: "0 < n" using assms by (auto simp: FractalBlock_init_def split: if_splits)
  have "pad_ok pad_type"
  proof (rule ccontr)
    assume bad: "\<not> pad_ok pad_type"
    have "\<exists>i\<in>set [0..<2 ^ (n - 1)]. (i + 1) mod 2 ^ (n - 1) = 0"
      by (rule bexI[of _ "2 ^ (n - 1) - 1"]) simp_all
    from build_column_bad[OF bad this]
    obtain e where "build_column (kern 0) C_in C_out p_dropout pad_type doubling (2 ^ (n - 1))
        [0..<2 ^ (n - 1)] (replicate n [] ! 0) (replicate (2 ^ (n - 1)) 0) = Inl e"
      by blast
    then have "build_columns kern C_in C_out p_dropout pad_type doubling (2 ^ (n - 1)) [0..<n]
        (2 ^ (n - 1)) (replicate n []) (replicate (2 ^ (n - 1)) 0) = Inl e"
      using n by (simp add: upt_conv_Cons)
    then show False using assms n by (simp add: FractalBlock_init_def Let_def)
  qed
  with n show ?thesis by simp
qed

lemma FractalBlock_init_shape:
  assumes "FractalBlock_init kern dkern n C_in C_out p_local p_dropout pad_type doubling = Inr blk"
  shows "0 < n" "n_columns blk = n" "max_depth blk = 2 ^ (n - 1)"
    "length (columns blk) = n" "length (count blk) = 2 ^ (n - 1)"
    "\<forall>c<n. columns blk ! c
        = map (slot (kern c) C_in C_out p_dropout doubling (2 ^ (n - 1 - c))) [0..<2 ^ (n - 1)]"
    "\<forall>j<2 ^ (n - 1). count blk ! j = card {c. c < n \<and> (j + 1) mod 2 ^ (n - 1 - c) = 0}"
    "training blk" "p_local_drop blk = p_local"
proof -
  from FractalBlock_init_pad[OF assms] have n: "0 < n" and pad: "pad_ok pad_type" by simp_all
  from build_columns_ok[OF pad, of 0 n "replicate n []" "replicate (2 ^ (n - 1)) 0"
      kern C_in C_out p_dropout doubling]
  obtain cols' cnt' where
    r: "build_columns kern C_in C_out p_dropout pad_type doubling (2 ^ (n - 1)) [0..<n]
          (2 ^ (n - 1)) (replicate n []) (replicate (2 ^ (n - 1)) 0) = Inr (cols', cnt')"
    and rl: "length cols' = n"
    and rhi: "\<forall>c. 0 \<le> c \<and> c < n \<longrightarrow>
                cols' ! c = replicate n [] ! c @ map (slot (kern c) C_in C_out p_dropout doubling (2 ^ (n - 1 - c))) [0..<2 ^ (n - 1)]"
    and rcl: "length cnt' = 2 ^ (n - 1)"
    and rcv: "\<forall>j<2 ^ (n - 1). cnt' ! j = replicate (2 ^ (n - 1)) 0 ! j + card {c. 0 \<le> c \<and> c < n \<and> (j + 1) mod 2 ^ (n - 1 - c) = 0}"
    by auto
  from assms r n have blk: "blk = \<lparr>n_columns = n, columns = cols', max_depth = 2 ^ (n - 1),
      p_local_drop = p_local,
      doubler = (if doubling then
                      (case ConvBlock_init dkern C_in C_out None ''zero'' of
                         Inl e \<Rightarrow> None | Inr d \<Rightarrow> Some d)
                    else None), count = cnt', training = True\<rparr>"
    by (simp add: FractalBlock_init_def Let_def)
  show "0 < n" by (rule n)
  show "n_columns blk = n" "max_depth blk = 2 ^ (n - 1)" "training blk" "p_local_drop blk = p_local"
    using blk by simp_all
  show "length (columns blk) = n" using blk rl by simp
  show "length (count blk) = 2 ^ (n - 1)" using blk rcl by simp
  show "\<forall>c<n. columns blk ! c
        = map (slot (kern c) C_in C_out p_dropout doubling (2 ^ (n - 1 - c))) [0..<2 ^ (n - 1)]"
    using blk rhi by simp
  show "\<forall>j<2 ^ (n - 1). count blk ! j = card {c. c < n \<and> (j + 1) mod 2 ^ (n - 1 - c) = 0}"
    using blk rcv by simp
qed

lemma suffix_of_upclosed:
  fixes A :: "nat set"
  assumes "A \<subseteq> {..<n}" "\<forall>c\<in>A. \<forall>c'. c \<le> c' \<and> c' < n \<longrightarrow> c' \<in> A"
  shows "A = {n - card A..<n}"
proof (cases "A = {}")
  case True
  then show ?thesis by simp
next
  case False
  have fin: "finite A" using assms(1) finite_subset by blast
  let ?m = "Min A"
  have mA: "?m \<in> A" using fin False by simp
  then have mn: "?m < n" using assms(1) by auto
  have "A = {?m..<n}"
  proof (rule set_eqI)
    fix c
    show "c \<in> A \<longleftrightarrow> c \<in> {?m..<n}"
    proof
      assume cA: "c \<in> A"
      then have "?m \<le> c" using fin by (simp add: Min_le)
      moreover have "c < n" using cA assms(1) by auto
      ultimately show "c \<in> {?m..<n}" by simp
    next
      assume "c \<in> {?m..<n}"
      then have "?m \<le> c \<and> c < n" by simp
      with assms(2) mA show "c \<in> A" by blast
    qed
  qed
  then have "card A = card {?m..<n}" by simp
  then have "card A = n - ?m" by simp
  then have "n - card A = ?m" using mn by simp
  with \<open>A = {?m..<n}\<close> show ?thesis by simp
qed

lemma active_upclosed:
  assumes "(i + 1) mod 2 ^ (n - 1 - c) = (0::nat)" "c \<le> c'"
  shows "(i + 1) mod 2 ^ (n - 1 - c') = (0::nat)"
proof -
  have "(2::nat) ^ (n - 1 - c') dvd 2 ^ (n - 1 - c)"
    using assms(2) by (intro le_imp_power_dvd) simp
  moreover have "(2::nat) ^ (n - 1 - c) dvd i + 1" using assms(1) by (simp add: dvd_eq_mod_eq_0)
  ultimately have "(2::nat) ^ (n - 1 - c') dvd i + 1" by (rule dvd_trans)
  then show ?thesis by (simp add: dvd_eq_mod_eq_0)
qed

text \<open>
  Claim C7. In every constructed FractalBlock, column \<open>c\<close> holds a transform at depth \<open>i\<close>
  exactly when \<open>(i + 1) mod 2 ^ (n_columns - 1 - c) = 0\<close> and holds \<open>None\<close> otherwise;
  \<open>count ! i\<close> is the number of columns holding a transform at depth \<open>i\<close>, and these
  columns are exactly the suffix \<open>n_columns - count ! i, ..., n_columns - 1\<close>.
\<close>

theorem schedule_suffix:
  assumes "FractalBlock_init kern dkern n C_in C_out p_local p_dropout pad_type doubling = Inr blk"
    and "i < max_depth blk"
  shows "1 \<le> n_columns blk \<and> max_depth blk = 2 ^ (n_columns blk - 1)
    \<and> length (columns blk) = n_columns blk \<and> length (count blk) = max_depth blk
    \<and> (\<forall>c<n_columns blk. length (columns blk ! c) = max_depth blk
          \<and> (columns blk ! c ! i \<noteq> None \<longleftrightarrow> (i + 1) mod 2 ^ (n_columns blk - 1 - c) = 0))
    \<and> count blk ! i = card {c. c < n_columns blk \<and> columns blk ! c ! i \<noteq> None}
    \<and> 1 \<le> count blk ! i \<and> count blk ! i \<le> n_columns blk
    \<and> {c. c < n_columns blk \<and> columns blk ! c ! i \<noteq> None}
        = {n_columns blk - count blk ! i..<n_columns blk}"
proof -
  note s = FractalBlock_init_shape[OF assms(1)]
  have i: "i < 2 ^ (n - 1)" using assms(2) s(3) by simp
  have pres: "\<forall>c<n. length (columns blk ! c) = 2 ^ (n - 1)
      \<and> (columns blk ! c ! i \<noteq> None \<longleftrightarrow> (i + 1) mod 2 ^ (n - 1 - c) = 0)"
    using s(6) i by (simp add: slot_def)
  let ?A = "{c. c < n \<and> columns blk ! c ! i \<noteq> None}"
  have A: "?A = {c. c < n \<and> (i + 1) mod 2 ^ (n - 1 - c) = 0}"
    using pres by auto
  have cnt: "count blk ! i = card ?A" using s(7) i A by simp
  have sub: "?A \<subseteq> {..<n}" by auto
  have up: "\<forall>c\<in>?A. \<forall>c'. c \<le> c' \<and> c' < n \<longrightarrow> c' \<in> ?A"
  proof (intro ballI allI impI)
    fix c c' assume c: "c \<in> ?A" and c': "c \<le> c' \<and> c' < n"
    from c have "(i + 1) mod 2 ^ (n - 1 - c) = 0" unfolding A by simp
    then have "(i + 1) mod 2 ^ (n - 1 - c') = 0" using c' by (intro active_upclosed[of i n c c']) simp_all
    then show "c' \<in> ?A" unfolding A using c' by simp
  qed
  have suf: "?A = {n - card ?A..<n}" by (rule suffix_of_upclosed[OF sub up])
  have last: "n - 1 \<in> ?A" unfolding A using s(1) by simp
  have "finite ?A" by simp
  then have "card ?A \<le> card {..<n}" using sub card_mono by blast
  then have le: "card ?A \<le> n" by simp
  have "?A \<noteq> {}" using last by blast
  then have "0 < card ?A" using \<open>finite ?A\<close> by (simp add: card_gt_0_iff)
  then have ge: "1 \<le> card ?A" by simp
  show ?thesis
    using s(1,2,3,4,5) pres cnt suf le ge by (simp add: Suc_le_eq)
qed

subsection \<open>Small instances\<close>

lemma upt_0_2: "[0..<2::nat] = [0, 1]"
  by code_simp

lemma upt_0_3: "[0..<3::nat] = [0, 1, 2]"
  by code_simp

lemma upt_0_4: "[0..<4::nat] = [0, 1, 2, 3]"
  by code_simp

lemma replicate_2: "replicate 2 x = [x, x]"
  by (simp add: numeral_2_eq_2)

lemma replicate_3: "replicate 3 x = [x, x, x]"
  by (simp add: numeral_3_eq_3)

lemma replicate_4: "replicate 4 x = [x, x, x, x]"
  by (simp add: numeral_eq_Suc)

lemmas init_eval = FractalBlock_init_def ConvBlock_init_def Let_def
  upt_0_2 upt_0_3 upt_0_4 replicate_2 replicate_3 replicate_4

lemma ex_block2_init:
  "FractalBlock_init ex_kern id 2 3 16 (1 / 2) None ''zero'' False = Inr ex_block2"
  by (simp add: ex_block2_def init_eval)

lemma ex_block3_init:
  "FractalBlock_init ex_kern id 3 3 16 (1 / 2) None ''zero'' False = Inr ex_block3"
  by (simp add: ex_block3_def init_eval)

lemma ex_block3_fields:
  "n_columns ex_block3 = 3" "max_depth ex_block3 = 4" "count ex_block3 = [1, 2, 1, 3]"
  by (simp_all add: ex_block3_def init_eval)

theorem schedule_suffix_witness:
  "FractalBlock_init ex_kern id 3 3 16 (1 / 2) None ''zero'' False = Inr ex_block3
   \<and> 1 < max_depth ex_block3
   \<and> count ex_block3 ! 1 = 2
   \<and> {c. c < n_columns ex_block3 \<and> columns ex_block3 ! c ! 1 \<noteq> None} = {1..<3}"
proof -
  have i: "1 < max_depth ex_block3" by (simp add: ex_block3_fields)
  note s = schedule_suffix[OF ex_block3_init i]
  note t = s[THEN conjunct2, THEN conjunct2, THEN conjunct2, THEN conjunct2, THEN conjunct2,
    THEN conjunct2, THEN conjunct2, THEN conjunct2]
  have "{c. c < n_columns ex_block3 \<and> columns ex_block3 ! c ! 1 \<noteq> None}
        = {n_columns ex_block3 - count ex_block3 ! 1..<n_columns ex_block3}"
    by (rule t)
  also have "\<dots> = {1..<3}" by (simp add: ex_block3_fields)
  finally have e: "{c. c < n_columns ex_block3 \<and> columns ex_block3 ! c ! 1 \<noteq> None} = {1..<3}" .
  have c: "count ex_block3 ! 1 = 2" by (simp add: ex_block3_fields)
  from ex_block3_init i c e show ?thesis by (intro conjI)
qed

text \<open>
  Claim C3, as amended. For \<open>n_columns = 3\<close> the table \<open>count\<close> has one entry per depth
  and equals \<open>[1, 2, 1, 3]\<close>, with \<open>max_depth = 4\<close>. Column 2 holds a transform at all
  four depths, column 1 at depths 1 and 3, column 0 at depth 3 only; the numbers of
  depths at which columns 0, 1, 2 are active are 1, 2, 4.
\<close>

theorem count_table_three_columns:
  assumes "FractalBlock_init kern dkern 3 C_in C_out p_local p_dropout pad_type doubling = Inr blk"
  shows "count blk = [1, 2, 1, 3] \<and> max_depth blk = 4
    \<and> map (map (\<lambda>m. m \<noteq> None)) (columns blk)
        = [[False, False, False, True], [False, True, False, True], [True, True, True, True]]
    \<and> map (\<lambda>col. length (filter (\<lambda>m. m \<noteq> None) col)) (columns blk) = [1, 2, 4]"
proof -
  from FractalBlock_init_pad[OF assms] have pad: "pad_type = ''zero'' \<or> pad_type = ''reflect''"
    by (simp add: pad_ok_def)
  from assms pad show ?thesis
    by (auto simp add: init_eval)
qed

theorem count_table_three_columns_witness:
  "FractalBlock_init ex_kern id 3 3 16 (1 / 2) None ''zero'' False = Inr ex_block3
   \<and> count ex_block3 = [1, 2, 1, 3] \<and> max_depth ex_block3 = 4
   \<and> map (\<lambda>col. length (filter (\<lambda>m. m \<noteq> None) col)) (columns ex_block3) = [1, 2, 4]"
  using count_table_three_columns[OF ex_block3_init] ex_block3_init by simp

text \<open>
  The claim as stated (\<open>count = [4, 2, 1]\<close>) fails: the table built for three columns is
  \<open>[1, 2, 1, 3]\<close>.
\<close>

theorem count_table_three_columns_counterexample:
  "map_sum id count (FractalBlock_init ex_kern id 3 3 16 (1 / 2) None ''zero'' False)
     = Inr [1, 2, 1, 3]
   \<and> map_sum id count (FractalBlock_init ex_kern id 3 3 16 (1 / 2) None ''zero'' False)
     \<noteq> Inr [4, 2, 1]"
  by (simp add: ex_block3_init ex_block3_fields)

section \<open>The random source\<close>

text \<open>
  Every vector of integers in range is the result of \<open>randint\<close> in some state, and
  every matrix of zeros and ones is the result of \<open>binomial1\<close> in some state, for a
  probability \<open>p\<close> with \<open>0 < p\<close> that is not above the largest 53-bit fraction below 1.
\<close>

lemma randint_reaches:
  assumes "low < high" "\<forall>x\<in>set xs. low \<le> x \<and> x < high"
  shows "\<exists>g. randint low high (int (length xs)) g = Inr (xs, advance (length xs) g)"
proof -
  define g :: rng where "g = (\<lambda>k. nat (xs ! k - low))"
  have "map (\<lambda>k. low + int (g k mod nat (high - low))) [0..<length xs] = xs"
  proof (rule nth_equalityI)
    show "length (map (\<lambda>k. low + int (g k mod nat (high - low))) [0..<length xs]) = length xs"
      by simp
    fix i assume "i < length (map (\<lambda>k. low + int (g k mod nat (high - low))) [0..<length xs])"
    then have i: "i < length xs" by simp
    then have b: "low \<le> xs ! i \<and> xs ! i < high" using assms(2) by simp
    then have "nat (xs ! i - low) < nat (high - low)" by linarith
    then have "g i mod nat (high - low) = nat (xs ! i - low)" by (simp add: g_def)
    then have "low + int (g i mod nat (high - low)) = xs ! i" using b by simp
    then show "map (\<lambda>k. low + int (g k mod nat (high - low))) [0..<length xs] ! i = xs ! i"
      using i by simp
  qed
  then have "randint low high (int (length xs)) g = Inr (xs, advance (length xs) g)"
    using assms(1) by (simp add: randint_def)
  then show ?thesis by blast
qed

lemma binomial1_reaches:
  assumes "0 < p" "p \<le> 1 - 1 / 2 ^ 53" "length m = rows"
    and "\<forall>row\<in>set m. length row = cols \<and> (\<forall>v\<in>set row. v = 0 \<or> v = 1)"
  shows "\<exists>g. binomial1 p rows (int cols) g = Inr (m, advance (rows * cols) g)"
proof -
  define g :: rng where
    "g = (\<lambda>k. if m ! (k div cols) ! (k mod cols) = 1 then 0 else 2 ^ 53 - 1)"
  have u0: "uniform 0 < p" using assms(1) by (simp add: uniform_def)
  have "uniform (2 ^ 53 - 1) = 1 - 1 / 2 ^ 53" by (simp add: uniform_def)
  then have u1: "\<not> uniform (2 ^ 53 - 1) < p" using assms(2) by simp
  have "map (\<lambda>r. map (\<lambda>s. if uniform (g (r * cols + s)) < p then 1 else 0) [0..<cols]) [0..<rows] = m"
  proof (rule nth_equalityI)
    show "length (map (\<lambda>r. map (\<lambda>s. if uniform (g (r * cols + s)) < p then 1 else 0) [0..<cols])
        [0..<rows]) = length m"
      using assms(3) by simp
    fix r assume "r < length (map (\<lambda>r. map (\<lambda>s. if uniform (g (r * cols + s)) < p then 1 else 0)
        [0..<cols]) [0..<rows])"
    then have r: "r < rows" by simp
    then have row: "m ! r \<in> set m" using assms(3) by simp
    then have rl: "length (m ! r) = cols" using assms(4) by blast
    have "map (\<lambda>s. if uniform (g (r * cols + s)) < p then 1 else 0) [0..<cols] = m ! r"
    proof (rule nth_equalityI)
      show "length (map (\<lambda>s. if uniform (g (r * cols + s)) < p then 1 else 0) [0..<cols])
          = length (m ! r)"
        using rl by simp
      fix s assume "s < length (map (\<lambda>s. if uniform (g (r * cols + s)) < p then 1 else (0::real))
          [0..<cols])"
      then have s: "s < cols" by simp
      have d: "(r * cols + s) div cols = r" "(r * cols + s) mod cols = s" using s by simp_all
      have "m ! r ! s \<in> set (m ! r)" using s rl by simp
      then have v: "m ! r ! s = 0 \<or> m ! r ! s = 1" using assms(4) row by blast
      have gk: "g (r * cols + s) = (if m ! r ! s = 1 then 0 else 2 ^ 53 - 1)"
        unfolding g_def d by (rule refl)
      have "(if uniform (g (r * cols + s)) < p then 1 else 0) = m ! r ! s"
        unfolding gk using v u0 u1 by auto
      then show "map (\<lambda>s. if uniform (g (r * cols + s)) < p then 1 else 0) [0..<cols] ! s
          = m ! r ! s"
        using s by simp
    qed
    then show "map (\<lambda>r. map (\<lambda>s. if uniform (g (r * cols + s)) < p then 1 else 0) [0..<cols])
        [0..<rows] ! r = m ! r"
      using r by simp
  qed
  moreover have "p \<le> 1" using assms(2) by (simp add: field_simps) 
  ultimately have "binomial1 p rows (int cols) g = Inr (m, advance (rows * cols) g)"
    using assms(1) by (simp add: binomial1_def)
  then show ?thesis by blast
qed

section \<open>The drop mask\<close>

lemma scatter_ones_Inr:
  assumes "scatter_ones m ps = Inr m'"
  shows "map length m' = map length m
    \<and> (\<forall>r<length m. \<forall>k<length (m ! r).
          m' ! r ! k = (if \<exists>(q, k')\<in>set ps. k' = k \<and> row_of (length m) q = r then 1 else m ! r ! k))"
  using assms
proof (induction ps arbitrary: m)
  case Nil
  then show ?case by simp
next
  case (Cons p ps)
  obtain q k where p: "p = (q, k)" by (cases p)
  let ?r = "row_of (length m) q"
  let ?m1 = "m[?r := (m ! ?r)[k := 1]]"
  from Cons.prems p have inr: "\<not> (q < - int (length m) \<or> int (length m) \<le> q)"
    by (auto split: if_splits)
  then have rl: "?r < length m" by (auto simp: row_of_def)
  from Cons.prems p inr have kl: "k < length (m ! ?r)"
    by (auto simp: row_of_def Let_def split: if_splits)
  from Cons.prems p inr kl have rest: "scatter_ones ?m1 ps = Inr m'"
    by (auto simp: row_of_def Let_def split: if_splits)
  have len1: "map length ?m1 = map length m"
    using rl by (simp add: map_update list_update_same_conv)
  have l1: "length ?m1 = length m" by simp
  from Cons.IH[OF rest] have
    a: "map length m' = map length ?m1" and
    b: "\<forall>r<length ?m1. \<forall>k'<length (?m1 ! r).
          m' ! r ! k' = (if \<exists>(q', k'')\<in>set ps. k'' = k' \<and> row_of (length ?m1) q' = r then 1 else ?m1 ! r ! k')"
    by blast+
  have "\<forall>r<length m. \<forall>k'<length (m ! r).
          m' ! r ! k' = (if \<exists>(q', k'')\<in>set (p # ps). k'' = k' \<and> row_of (length m) q' = r then 1 else m ! r ! k')"
  proof (intro allI impI)
    fix r k' assume r: "r < length m" and k': "k' < length (m ! r)"
    have lr: "length (?m1 ! r) = length (m ! r)"
      using r by (cases "r = ?r") simp_all
    have e1: "?m1 ! r ! k' = (if r = ?r \<and> k' = k then 1 else m ! r ! k')"
      using r k' by (cases "r = ?r") (auto simp: nth_list_update)
    from b r k' lr have
      "m' ! r ! k' = (if \<exists>(q', k'')\<in>set ps. k'' = k' \<and> row_of (length m) q' = r then 1 else ?m1 ! r ! k')"
      by simp
    with e1 show "m' ! r ! k' = (if \<exists>(q', k'')\<in>set (p # ps). k'' = k' \<and> row_of (length m) q' = r then 1 else m ! r ! k')"
      using p by auto
  qed
  with a len1 show ?case by simp
qed

lemma scatter_ones_succeeds:
  assumes "\<forall>(q, k)\<in>set ps. 0 \<le> q \<and> q < int (length m) \<and> k < C" "\<forall>row\<in>set m. length row = C"
  shows "\<exists>m'. scatter_ones m ps = Inr m'"
  using assms
proof (induction ps arbitrary: m)
  case Nil
  then show ?case by simp
next
  case (Cons p ps)
  obtain q k where p: "p = (q, k)" by (cases p)
  from Cons.prems(1) p have q: "0 \<le> q" "q < int (length m)" and k: "k < C" by auto
  let ?m1 = "m[nat q := (m ! nat q)[k := 1]]"
  have rows: "\<forall>row\<in>set ?m1. length row = C"
  proof
    fix row assume "row \<in> set ?m1"
    then have "row = (m ! nat q)[k := 1] \<or> row \<in> set m"
      by (auto dest: set_update_subset_insert[THEN subsetD])
    moreover have "m ! nat q \<in> set m" using q by simp
    ultimately show "length row = C" using Cons.prems(2) by auto
  qed
  have ps: "\<forall>(q, k)\<in>set ps. 0 \<le> q \<and> q < int (length ?m1) \<and> k < C"
    using Cons.prems(1) by auto
  from Cons.IH[OF ps rows] obtain m' where "scatter_ones ?m1 ps = Inr m'" by blast
  moreover have "length (m ! nat q) = C" using q Cons.prems(2) by simp
  ultimately show ?case using p q k by (simp add: Let_def)
qed

lemma binomial1_Inr:
  assumes "binomial1 p rows cols g = Inr (m, g1)"
  shows "0 \<le> cols" "length m = rows" "\<forall>r<rows. length (m ! r) = nat cols"
    "\<forall>r<rows. \<forall>s<nat cols. m ! r ! s = 0 \<or> m ! r ! s = 1"
  using assms by (auto simp: binomial1_def split: if_splits)

lemma binomial1_succeeds:
  assumes "0 \<le> p" "p \<le> 1" "0 \<le> cols"
  shows "\<exists>m g1. binomial1 p rows cols g = Inr (m, g1)"
  using assms by (simp add: binomial1_def)

lemma randint_Inr:
  assumes "randint low high sz g = Inr (xs, g1)"
  shows "low < high" "0 \<le> sz" "length xs = nat sz" "\<forall>j<nat sz. low \<le> xs ! j \<and> xs ! j < high"
proof -
  from assms have c: "low < high" "0 \<le> sz"
    and xs: "xs = map (\<lambda>k. low + int (g k mod nat (high - low))) [0..<nat sz]"
    by (auto simp: randint_def split: if_splits)
  show "low < high" "0 \<le> sz" by (rule c)+
  show "length xs = nat sz" using xs by simp
  show "\<forall>j<nat sz. low \<le> xs ! j \<and> xs ! j < high"
  proof (intro allI impI)
    fix j assume j: "j < nat sz"
    have pos: "0 < nat (high - low)" using c by simp
    have "g j mod nat (high - low) < nat (high - low)" using pos by simp
    then have "int (g j mod nat (high - low)) < high - low" using c by linarith
    then show "low \<le> xs ! j \<and> xs ! j < high" using xs j by simp
  qed
qed

lemma randint_succeeds:
  assumes "low < high" "0 \<le> sz"
  shows "\<exists>xs g1. randint low high sz g = Inr (xs, g1)"
  using assms by (simp add: randint_def)

lemma drop_mask_InrE:
  assumes "drop_mask blk B gc n g = Inr (m, g')"
  obtains gm lm g1 picks lm' where
    "scatter_ones (replicate n (replicate (length gc) 0))
       (map (\<lambda>k. (map (\<lambda>c. c - (int (n_columns blk) - int n)) gc ! k, k))
          (filter (\<lambda>k. map (\<lambda>c. c - (int (n_columns blk) - int n)) gc ! k \<ge> 0) [0..<length gc]))
     = Inr gm"
    "binomial1 (1 - p_local_drop blk) n (int B - int (length gc)) g = Inr (lm, g1)"
    "randint 0 (int n)
       (int (length (filter (\<lambda>s. sum_axis0 lm (nat (int B - int (length gc))) ! s = 0)
                       [0..<nat (int B - int (length gc))]))) g1 = Inr (picks, g')"
    "scatter_ones lm
       (zip picks (filter (\<lambda>s. sum_axis0 lm (nat (int B - int (length gc))) ! s = 0)
                       [0..<nat (int B - int (length gc))])) = Inr lm'"
    "m = map2 (@) gm lm'"
  using assms unfolding drop_mask_def Let_def
  by (auto split: sum.splits prod.splits)

lemma scatter_ones_Inr_bounds:
  assumes "scatter_ones m ps = Inr m'"
  shows "\<forall>(q, k)\<in>set ps. - int (length m) \<le> q \<and> q < int (length m)"
  using assms
proof (induction ps arbitrary: m)
  case Nil
  then show ?case by simp
next
  case (Cons p ps)
  obtain q k where p: "p = (q, k)" by (cases p)
  let ?r = "nat (if q < 0 then q + int (length m) else q)"
  let ?m1 = "m[?r := (m ! ?r)[k := 1]]"
  from Cons.prems p have inr: "\<not> (q < - int (length m) \<or> int (length m) \<le> q)"
    by (auto split: if_splits)
  from Cons.prems p inr have rest: "scatter_ones ?m1 ps = Inr m'"
    by (auto simp: Let_def split: if_splits)
  from Cons.IH[OF rest] have "\<forall>(q, k)\<in>set ps. - int (length m) \<le> q \<and> q < int (length m)"
    by simp
  with inr p show ?case by auto
qed

lemma sum_list_zero_binary:
  fixes xs :: "real list"
  assumes "sum_list xs \<noteq> 0"
  shows "\<exists>j<length xs. xs ! j \<noteq> 0"
proof (rule ccontr)
  assume "\<not> (\<exists>j<length xs. xs ! j \<noteq> 0)"
  then have "\<forall>x\<in>set xs. x = 0" by (auto simp: in_set_conv_nth)
  then have "sum_list xs = 0" by (induction xs) auto
  with assms show False by simp
qed

lemma drop_mask_sound:
  assumes "drop_mask blk B gc n g = Inr (m, g')"
  shows "length gc \<le> B" "0 < n" "length m = n" "\<forall>r<n. length (m ! r) = B"
    "\<forall>k<length gc. gc ! k - (int (n_columns blk) - int n) < int n"
    "\<forall>k<length gc. \<forall>r<n.
       m ! r ! k = (if gc ! k - (int (n_columns blk) - int n) = int r then 1 else 0)"
    "\<forall>s. length gc \<le> s \<and> s < B \<longrightarrow> (\<forall>r<n. m ! r ! s = 0 \<or> m ! r ! s = 1)"
    "\<forall>s. length gc \<le> s \<and> s < B \<longrightarrow> (\<exists>r<n. m ! r ! s = 1)"
proof -
  let ?GB = "length gc"
  let ?off = "int (n_columns blk) - int n"
  let ?gdc = "map (\<lambda>c. c - ?off) gc"
  let ?gi = "filter (\<lambda>k. ?gdc ! k \<ge> 0) [0..<?GB]"
  let ?gp = "map (\<lambda>k. (?gdc ! k, k)) ?gi"
  let ?LB = "int B - int ?GB"
  from assms obtain gm lm g1 picks lm' where
    gm: "scatter_ones (replicate n (replicate ?GB 0)) ?gp = Inr gm" and
    lm: "binomial1 (1 - p_local_drop blk) n ?LB g = Inr (lm, g1)" and
    pk: "randint 0 (int n)
       (int (length (filter (\<lambda>s. sum_axis0 lm (nat ?LB) ! s = 0) [0..<nat ?LB]))) g1 = Inr (picks, g')" and
    lm': "scatter_ones lm
       (zip picks (filter (\<lambda>s. sum_axis0 lm (nat ?LB) ! s = 0) [0..<nat ?LB])) = Inr lm'" and
    m: "m = map2 (@) gm lm'"
    by (rule drop_mask_InrE)
  let ?dead = "filter (\<lambda>s. sum_axis0 lm (nat ?LB) ! s = 0) [0..<nat ?LB]"
  note bl = binomial1_Inr[OF lm]
  note rl = randint_Inr[OF pk]
  from bl(1) show GB: "?GB \<le> B" by simp
  then have nLB: "nat ?LB = B - ?GB" by simp
  from rl(1) show n: "0 < n" by simp
  \<comment> \<open>the global part\<close>
  note sg = scatter_ones_Inr[OF gm]
  from sg have "map length gm = replicate n ?GB" by (simp add: map_replicate_const)
  then have gml: "length gm = n" and gmr: "\<forall>r<n. length (gm ! r) = ?GB"
    by (metis length_map length_replicate, metis length_map length_replicate nth_map nth_replicate)
  have gme: "\<forall>r<n. \<forall>k<?GB. gm ! r ! k = (if ?gdc ! k = int r then 1 else 0)"
  proof (intro allI impI)
    fix r k assume r: "r < n" and k: "k < ?GB"
    have "(\<exists>(q, k')\<in>set ?gp. k' = k \<and> row_of n q = r) \<longleftrightarrow> ?gdc ! k = int r"
    proof
      assume "\<exists>(q, k')\<in>set ?gp. k' = k \<and> row_of n q = r"
      then have "?gdc ! k \<ge> 0" "row_of n (?gdc ! k) = r" by auto
      then show "?gdc ! k = int r" by (simp add: row_of_def)
    next
      assume e: "?gdc ! k = int r"
      then have "k \<in> set ?gi" using k by simp
      then have "(\<lambda>k. (?gdc ! k, k)) k \<in> (\<lambda>k. (?gdc ! k, k)) ` set ?gi" by (rule imageI)
      then have "(?gdc ! k, k) \<in> set ?gp" by (simp only: set_map)
      moreover have "row_of n (?gdc ! k) = r" using e by (simp add: row_of_def)
      ultimately show "\<exists>(q, k')\<in>set ?gp. k' = k \<and> row_of n q = r" by blast
    qed
    moreover from sg r k have
      "gm ! r ! k = (if \<exists>(q, k')\<in>set ?gp. k' = k \<and> row_of n q = r then 1 else 0)"
      by simp
    ultimately show "gm ! r ! k = (if ?gdc ! k = int r then 1 else 0)" by simp
  qed
  \<comment> \<open>the local part\<close>
  note sl = scatter_ones_Inr[OF lm']
  from sl have ll: "map length lm' = map length lm" by simp
  have lml: "length lm' = n" using ll bl(2) by (metis length_map)
  have lmr: "\<forall>r<n. length (lm' ! r) = B - ?GB"
  proof (intro allI impI)
    fix r assume r: "r < n"
    have "length (lm' ! r) = map length lm' ! r" using r lml by simp
    also have "\<dots> = length (lm ! r)" using ll r bl(2) by simp
    finally show "length (lm' ! r) = B - ?GB" using bl(3) r nLB by simp
  qed
  have lme: "\<forall>r<n. \<forall>s<B - ?GB. lm' ! r ! s
      = (if \<exists>(q, s')\<in>set (zip picks ?dead). s' = s \<and> row_of n q = r then 1 else lm ! r ! s)"
    using sl bl(2,3) nLB by simp
  \<comment> \<open>the concatenation\<close>
  show ml: "length m = n" using m gml lml by simp
  have mr: "\<forall>r<n. m ! r = gm ! r @ lm' ! r" using m gml lml by simp
  show "\<forall>r<n. length (m ! r) = B" using mr gmr lmr GB by simp
  show "\<forall>k<?GB. gc ! k - ?off < int n"
  proof (intro allI impI)
    fix k assume k: "k < ?GB"
    show "gc ! k - ?off < int n"
    proof (cases "?gdc ! k \<ge> 0")
      case True
      then have "k \<in> set ?gi" using k by simp
      then have "(\<lambda>k. (?gdc ! k, k)) k \<in> (\<lambda>k. (?gdc ! k, k)) ` set ?gi" by (rule imageI)
      then have "(?gdc ! k, k) \<in> set ?gp" by (simp only: set_map)
      with scatter_ones_Inr_bounds[OF gm] have "?gdc ! k < int n" by auto
      then show ?thesis using k by simp
    next
      case False
      then show ?thesis using k by simp
    qed
  qed
  show "\<forall>k<?GB. \<forall>r<n. m ! r ! k = (if gc ! k - ?off = int r then 1 else 0)"
    using mr gmr gme by (simp add: nth_append)
  have loc: "\<forall>s. ?GB \<le> s \<and> s < B \<longrightarrow> (\<forall>r<n. m ! r ! s = lm' ! r ! (s - ?GB))"
    using mr gmr by (simp add: nth_append)
  show "\<forall>s. ?GB \<le> s \<and> s < B \<longrightarrow> (\<forall>r<n. m ! r ! s = 0 \<or> m ! r ! s = 1)"
  proof (intro allI impI)
    fix s r assume s: "?GB \<le> s \<and> s < B" and r: "r < n"
    then have s': "s - ?GB < B - ?GB" by linarith
    have "lm ! r ! (s - ?GB) = 0 \<or> lm ! r ! (s - ?GB) = 1" using bl(4) r s' nLB by simp
    then have "lm' ! r ! (s - ?GB) = 0 \<or> lm' ! r ! (s - ?GB) = 1"
      using lme r s' by auto
    then show "m ! r ! s = 0 \<or> m ! r ! s = 1" using loc s r by simp
  qed
  show "\<forall>s. ?GB \<le> s \<and> s < B \<longrightarrow> (\<exists>r<n. m ! r ! s = 1)"
  proof (intro allI impI)
    fix s assume s: "?GB \<le> s \<and> s < B"
    then have s': "s - ?GB < B - ?GB" by linarith
    let ?t = "s - ?GB"
    have "\<exists>r<n. lm' ! r ! ?t = 1"
    proof (cases "sum_axis0 lm (nat ?LB) ! ?t = 0")
      case True
      then have "?t \<in> set ?dead" using s' nLB by simp
      then obtain j where j: "j < length ?dead" "?dead ! j = ?t"
        unfolding in_set_conv_nth by blast
      have pl: "length picks = length ?dead" using rl(3) by simp
      then have mem: "(picks ! j, ?t) \<in> set (zip picks ?dead)"
        using j by (auto simp: in_set_zip intro!: exI[of _ j])
      have pj: "0 \<le> picks ! j \<and> picks ! j < int n" using rl(4) j by simp
      let ?r = "nat (picks ! j)"
      have r: "?r < n" using pj by linarith
      have "row_of n (picks ! j) = ?r" using pj by (simp add: row_of_def)
      with mem have "\<exists>(q, s')\<in>set (zip picks ?dead). s' = ?t \<and> row_of n q = ?r" by blast
      then have "lm' ! ?r ! ?t = 1" using lme r s' by simp
      with r show ?thesis by blast
    next
      case False
      then have "sum_list (map (\<lambda>row. row ! ?t) lm) \<noteq> 0"
        using s' nLB by (simp add: sum_axis0_def)
      from sum_list_zero_binary[OF this] obtain r where r: "r < n" "lm ! r ! ?t \<noteq> 0"
        using bl(2) by auto
      then have "lm ! r ! ?t = 1" using bl(4) s' nLB by auto
      then have "lm' ! r ! ?t = 1" using lme r(1) s' by simp
      with r(1) show ?thesis by blast
    qed
    then show "\<exists>r<n. m ! r ! s = 1" using loc s by auto
  qed
qed

lemma drop_mask_succeeds:
  assumes "length gc \<le> B" "\<forall>c\<in>set gc. c < int (n_columns blk)" "0 < n"
    "0 \<le> p_local_drop blk" "p_local_drop blk \<le> 1"
  shows "\<exists>m g'. drop_mask blk B gc n g = Inr (m, g')"
proof -
  let ?GB = "length gc"
  let ?off = "int (n_columns blk) - int n"
  let ?gdc = "map (\<lambda>c. c - ?off) gc"
  let ?gi = "filter (\<lambda>k. ?gdc ! k \<ge> 0) [0..<?GB]"
  let ?gp = "map (\<lambda>k. (?gdc ! k, k)) ?gi"
  let ?LB = "int B - int ?GB"
  let ?z = "replicate n (replicate ?GB (0::real))"
  have "\<forall>(q, k)\<in>set ?gp. 0 \<le> q \<and> q < int (length ?z) \<and> k < ?GB"
  proof (clarify)
    fix q k assume "(q, k) \<in> set ?gp"
    then have k: "k < ?GB" and q: "q = ?gdc ! k" and q0: "0 \<le> ?gdc ! k" by auto
    have "gc ! k < int (n_columns blk)" using assms(2) k by simp
    then have "?gdc ! k < int n" using k by simp
    with k q q0 show "0 \<le> q \<and> q < int (length ?z) \<and> k < ?GB" by simp
  qed
  moreover have "\<forall>row\<in>set ?z. length row = ?GB" by simp
  ultimately obtain gm where gm: "scatter_ones ?z ?gp = Inr gm"
    using scatter_ones_succeeds by blast
  have "0 \<le> 1 - p_local_drop blk" "1 - p_local_drop blk \<le> 1" "0 \<le> ?LB"
    using assms by simp_all
  from binomial1_succeeds[OF this] obtain lm g1 where
    lm: "binomial1 (1 - p_local_drop blk) n ?LB g = Inr (lm, g1)" by blast
  note bl = binomial1_Inr[OF lm]
  let ?dead = "filter (\<lambda>s. sum_axis0 lm (nat ?LB) ! s = 0) [0..<nat ?LB]"
  have "(0::int) < int n" "0 \<le> int (length ?dead)" using assms(3) by simp_all
  from randint_succeeds[OF this] obtain picks g2 where
    pk: "randint 0 (int n) (int (length ?dead)) g1 = Inr (picks, g2)" by blast
  note rl = randint_Inr[OF pk]
  have "\<forall>(q, k)\<in>set (zip picks ?dead). 0 \<le> q \<and> q < int (length lm) \<and> k < nat ?LB"
  proof (clarify)
    fix q k assume "(q, k) \<in> set (zip picks ?dead)"
    then obtain j where j: "j < length picks" "j < length ?dead" "picks ! j = q" "?dead ! j = k"
      by (auto simp: in_set_zip)
    have "?dead ! j \<in> set ?dead" using j(2) by (rule nth_mem)
    then have "k < nat ?LB" using j(4) by simp
    moreover have "0 \<le> picks ! j \<and> picks ! j < int n" using rl(3,4) j(1) by simp
    ultimately show "0 \<le> q \<and> q < int (length lm) \<and> k < nat ?LB" using j(3) bl(2) by simp
  qed
  moreover have "\<forall>row\<in>set lm. length row = nat ?LB"
    using bl(2,3) by (auto simp: in_set_conv_nth)
  ultimately obtain lm' where lm': "scatter_ones lm (zip picks ?dead) = Inr lm'"
    using scatter_ones_succeeds by blast
  have "drop_mask blk B gc n g = Inr (map2 (@) gm lm', g2)"
    unfolding drop_mask_def Let_def using gm lm pk lm' by simp
  then show ?thesis by blast
qed

lemma sum_list_column:
  "sum_list (map (\<lambda>row. row ! s) m) = (\<Sum>r<length m. m ! r ! s)"
proof -
  have "sum_list (map (\<lambda>row. row ! s) m)
      = (\<Sum>r = 0..<length (map (\<lambda>row. row ! s) m). map (\<lambda>row. row ! s) m ! r)"
    by (rule sum_list_sum_nth)
  also have "\<dots> = (\<Sum>r = 0..<length m. m ! r ! s)" by (rule sum.cong) simp_all
  finally show ?thesis by (simp add: atLeast0LessThan)
qed

lemma sum_one_hot:
  fixes f :: "nat \<Rightarrow> real"
  assumes "q < n" "\<forall>r<n. f r = (if r = q then 1 else 0)"
  shows "(\<Sum>r<n. f r) = 1"
proof -
  have "(\<Sum>r<n. f r) = (\<Sum>r\<in>{..<n}. if r = q then 1 else 0)"
    using assms(2) by (intro sum.cong) simp_all
  also have "\<dots> = 1" using assms(1) by simp
  finally show ?thesis .
qed

lemma sum_binary_ge_1:
  fixes f :: "nat \<Rightarrow> real"
  assumes "\<forall>r<n. f r = 0 \<or> f r = 1" "q < n" "f q = 1"
  shows "1 \<le> (\<Sum>r<n. f r)"
proof -
  have "f q \<le> sum f {..<n}"
  proof (rule member_le_sum)
    show "q \<in> {..<n}" using assms(2) by simp
    show "\<And>x. x \<in> {..<n} - {q} \<Longrightarrow> 0 \<le> f x" using assms(1) by force
    show "finite {..<n}" by simp
  qed
  with assms(3) show ?thesis by simp
qed

text \<open>
  Claim C4. For a batch size \<open>B \<ge> 1\<close>, a vector \<open>global_cols\<close> of length \<open>GB \<le> B\<close> with
  entries in \<open>[0, n_columns)\<close>, \<open>1 \<le> n_cols \<le> n_columns\<close> and \<open>p_local_drop\<close> in \<open>[0, 1]\<close>,
  \<open>drop_mask\<close> returns a mask for every state of the random source; the mask has
  \<open>n_cols\<close> rows of length \<open>B\<close>, every entry is 0 or 1, every column of a local sample
  (positions \<open>GB\<close> to \<open>B - 1\<close>) sums to at least 1, and the column of a global sample
  sums to 0 when its chosen column is below \<open>n_columns - n_cols\<close> and to 1 otherwise.
\<close>

theorem drop_mask_invariant:
  assumes "1 \<le> B" "length global_cols \<le> B"
    and "\<forall>c\<in>set global_cols. 0 \<le> c \<and> c < int (n_columns blk)"
    and "1 \<le> n_cols" "n_cols \<le> n_columns blk"
    and "0 \<le> p_local_drop blk" "p_local_drop blk \<le> 1"
  shows "\<exists>m g'. drop_mask blk B global_cols n_cols g = Inr (m, g')
      \<and> length m = n_cols \<and> (\<forall>r<n_cols. length (m ! r) = B)
      \<and> (\<forall>r<n_cols. \<forall>s<B. m ! r ! s = 0 \<or> m ! r ! s = 1)
      \<and> (\<forall>s. length global_cols \<le> s \<and> s < B \<longrightarrow> 1 \<le> sum_list (map (\<lambda>row. row ! s) m))
      \<and> (\<forall>k<length global_cols. sum_list (map (\<lambda>row. row ! k) m)
            = (if global_cols ! k < int (n_columns blk) - int n_cols then 0 else 1))"
proof -
  have up: "\<forall>c\<in>set global_cols. c < int (n_columns blk)" using assms(3) by simp
  have n: "0 < n_cols" using assms(4) by simp
  from drop_mask_succeeds[OF assms(2) up n assms(6,7)] obtain m g' where
    dm: "drop_mask blk B global_cols n_cols g = Inr (m, g')" by blast
  note s = drop_mask_sound[OF dm]
  let ?off = "int (n_columns blk) - int n_cols"
  have bin: "\<forall>r<n_cols. \<forall>s<B. m ! r ! s = 0 \<or> m ! r ! s = 1"
  proof (intro allI impI)
    fix r t assume r: "r < n_cols" and t: "t < B"
    show "m ! r ! t = 0 \<or> m ! r ! t = 1"
    proof (cases "t < length global_cols")
      case True
      with s(6) r show ?thesis by simp
    next
      case False
      with s(7) r t show ?thesis by simp
    qed
  qed
  have loc: "\<forall>t. length global_cols \<le> t \<and> t < B \<longrightarrow> 1 \<le> sum_list (map (\<lambda>row. row ! t) m)"
  proof (intro allI impI)
    fix t assume t: "length global_cols \<le> t \<and> t < B"
    with s(8) obtain q where q: "q < n_cols" "m ! q ! t = 1" by blast
    have "1 \<le> (\<Sum>r<n_cols. m ! r ! t)"
      by (rule sum_binary_ge_1[where q = q]) (use bin t q in simp_all)
    then show "1 \<le> sum_list (map (\<lambda>row. row ! t) m)"
      using s(3) by (simp add: sum_list_column)
  qed
  have glob: "\<forall>k<length global_cols. sum_list (map (\<lambda>row. row ! k) m)
            = (if global_cols ! k < ?off then 0 else 1)"
  proof (intro allI impI)
    fix k assume k: "k < length global_cols"
    show "sum_list (map (\<lambda>row. row ! k) m) = (if global_cols ! k < ?off then 0 else 1)"
    proof (cases "global_cols ! k < ?off")
      case True
      then have "\<forall>r<n_cols. m ! r ! k = 0" using s(6) k by simp
      then have "(\<Sum>r<n_cols. m ! r ! k) = 0" by simp
      then show ?thesis using True s(3) by (simp add: sum_list_column)
    next
      case False
      let ?q = "nat (global_cols ! k - ?off)"
      have "global_cols ! k - ?off < int n_cols" using s(5) k by blast
      then have q: "?q < n_cols" using False by linarith
      have "\<forall>r<n_cols. m ! r ! k = (if r = ?q then 1 else 0)"
        using s(6) k False by auto
      from sum_one_hot[OF q this] show ?thesis using False s(3) by (simp add: sum_list_column)
    qed
  qed
  from dm s(3,4) bin loc glob show ?thesis by blast
qed

lemma ex_block3_p: "p_local_drop ex_block3 = 1 / 2"
  by (simp add: ex_block3_def init_eval)

theorem drop_mask_invariant_witness:
  "(1::nat) \<le> 4 \<and> length [0, 2::int] \<le> 4 \<and> (1::nat) \<le> 2 \<and> 2 \<le> n_columns ex_block3
   \<and> 0 \<le> p_local_drop ex_block3 \<and> p_local_drop ex_block3 \<le> 1
   \<and> (\<exists>m g'. drop_mask ex_block3 4 [0, 2] 2 ex_rng = Inr (m, g') \<and> length m = 2
        \<and> length (m ! 0) = 4 \<and> length (m ! 1) = 4
        \<and> sum_list (map (\<lambda>row. row ! 0) m) = 0 \<and> sum_list (map (\<lambda>row. row ! 1) m) = 1
        \<and> 1 \<le> sum_list (map (\<lambda>row. row ! 2) m) \<and> 1 \<le> sum_list (map (\<lambda>row. row ! 3) m))"
proof -
  have h1: "(1::nat) \<le> 4" and h2: "length [0, 2::int] \<le> 4" and h4: "(1::nat) \<le> 2"
    and h5: "2 \<le> n_columns ex_block3"
    and h6: "0 \<le> p_local_drop ex_block3" and h7: "p_local_drop ex_block3 \<le> 1"
    by (simp_all add: ex_block3_fields ex_block3_p)
  have h3: "\<forall>c\<in>set [0, 2::int]. 0 \<le> c \<and> c < int (n_columns ex_block3)"
    by (simp add: ex_block3_fields)
  from drop_mask_invariant[OF h1 h2 h3 h4 h5 h6 h7, of ex_rng] obtain m g' where
    dm: "drop_mask ex_block3 4 [0, 2] 2 ex_rng = Inr (m, g')" and l: "length m = 2"
    and r: "\<forall>r<2. length (m ! r) = 4"
    and loc: "\<forall>s. length [0, 2::int] \<le> s \<and> s < 4 \<longrightarrow> 1 \<le> sum_list (map (\<lambda>row. row ! s) m)"
    and glob: "\<forall>k<length [0, 2::int]. sum_list (map (\<lambda>row. row ! k) m)
            = (if [0, 2::int] ! k < int (n_columns ex_block3) - int 2 then 0 else 1)"
    by blast
  have r0: "length (m ! 0) = 4" and r1: "length (m ! 1) = 4" using r by simp_all
  have g0: "sum_list (map (\<lambda>row. row ! 0) m) = 0"
    using glob[rule_format, of 0] by (simp add: ex_block3_fields)
  have g1: "sum_list (map (\<lambda>row. row ! 1) m) = 1"
    using glob[rule_format, of 1] by (simp add: ex_block3_fields)
  have l2: "1 \<le> sum_list (map (\<lambda>row. row ! 2) m)" using loc[rule_format, of 2] by simp
  have l3: "1 \<le> sum_list (map (\<lambda>row. row ! 3) m)" using loc[rule_format, of 3] by simp
  from dm l r0 r1 g0 g1 l2 l3 have
    "\<exists>m g'. drop_mask ex_block3 4 [0, 2] 2 ex_rng = Inr (m, g') \<and> length m = 2
        \<and> length (m ! 0) = 4 \<and> length (m ! 1) = 4
        \<and> sum_list (map (\<lambda>row. row ! 0) m) = 0 \<and> sum_list (map (\<lambda>row. row ! 1) m) = 1
        \<and> 1 \<le> sum_list (map (\<lambda>row. row ! 2) m) \<and> 1 \<le> sum_list (map (\<lambda>row. row ! 3) m)"
    by blast
  with h1 h2 h4 h5 h6 h7 show ?thesis by (intro conjI)
qed

text \<open>
  Claim C10. When \<open>drop_mask\<close> is called with \<open>n_cols = n_columns\<close> and the global
  choices are in \<open>[0, n_columns)\<close>, each of the first \<open>GB\<close> mask columns is one-hot: its
  only 1 is in the row of the chosen column, and it sums to exactly 1.
\<close>

theorem drop_mask_full_width_one_hot:
  assumes "length global_cols \<le> B"
    and "\<forall>c\<in>set global_cols. 0 \<le> c \<and> c < int (n_columns blk)"
    and "1 \<le> n_columns blk"
    and "0 \<le> p_local_drop blk" "p_local_drop blk \<le> 1"
  shows "\<exists>m g'. drop_mask blk B global_cols (n_columns blk) g = Inr (m, g')
      \<and> (\<forall>k<length global_cols.
            sum_list (map (\<lambda>row. row ! k) m) = 1
          \<and> (\<forall>r<n_columns blk. m ! r ! k = (if int r = global_cols ! k then 1 else 0)))"
proof -
  have up: "\<forall>c\<in>set global_cols. c < int (n_columns blk)" using assms(2) by simp
  have n: "0 < n_columns blk" using assms(3) by simp
  from drop_mask_succeeds[OF assms(1) up n assms(4,5)] obtain m g' where
    dm: "drop_mask blk B global_cols (n_columns blk) g = Inr (m, g')" by blast
  note s = drop_mask_sound[OF dm]
  have "\<forall>k<length global_cols.
            sum_list (map (\<lambda>row. row ! k) m) = 1
          \<and> (\<forall>r<n_columns blk. m ! r ! k = (if int r = global_cols ! k then 1 else 0))"
  proof (intro allI impI)
    fix k assume k: "k < length global_cols"
    have e: "\<forall>r<n_columns blk. m ! r ! k = (if int r = global_cols ! k then 1 else 0)"
      using s(6) k by auto
    have c: "0 \<le> global_cols ! k \<and> global_cols ! k < int (n_columns blk)"
      using assms(2) k by simp
    let ?q = "nat (global_cols ! k)"
    have q: "?q < n_columns blk" using c by linarith
    have "\<forall>r<n_columns blk. m ! r ! k = (if r = ?q then 1 else 0)"
      using e c by auto
    from sum_one_hot[OF q this] have "sum_list (map (\<lambda>row. row ! k) m) = 1"
      using s(3) by (simp add: sum_list_column)
    with e show "sum_list (map (\<lambda>row. row ! k) m) = 1
          \<and> (\<forall>r<n_columns blk. m ! r ! k = (if int r = global_cols ! k then 1 else 0))"
      by simp
  qed
  with dm show ?thesis by blast
qed

theorem drop_mask_full_width_one_hot_witness:
  "length [0, 2, 1::int] \<le> 4 \<and> 1 \<le> n_columns ex_block3
   \<and> 0 \<le> p_local_drop ex_block3 \<and> p_local_drop ex_block3 \<le> 1
   \<and> (\<exists>m g'. drop_mask ex_block3 4 [0, 2, 1] (n_columns ex_block3) ex_rng = Inr (m, g')
        \<and> sum_list (map (\<lambda>row. row ! 0) m) = 1 \<and> sum_list (map (\<lambda>row. row ! 1) m) = 1
        \<and> sum_list (map (\<lambda>row. row ! 2) m) = 1
        \<and> m ! 0 ! 0 = 1 \<and> m ! 1 ! 0 = 0 \<and> m ! 2 ! 0 = 0
        \<and> m ! 2 ! 1 = 1 \<and> m ! 1 ! 2 = 1)"
proof -
  have h1: "length [0, 2, 1::int] \<le> 4" and h3: "1 \<le> n_columns ex_block3"
    and h4: "0 \<le> p_local_drop ex_block3" and h5: "p_local_drop ex_block3 \<le> 1"
    by (simp_all add: ex_block3_fields ex_block3_p)
  have h2: "\<forall>c\<in>set [0, 2, 1::int]. 0 \<le> c \<and> c < int (n_columns ex_block3)"
    by (simp add: ex_block3_fields)
  from drop_mask_full_width_one_hot[OF h1 h2 h3 h4 h5, of ex_rng] obtain m g' where
    dm: "drop_mask ex_block3 4 [0, 2, 1] (n_columns ex_block3) ex_rng = Inr (m, g')"
    and oh: "\<forall>k<length [0, 2, 1::int].
            sum_list (map (\<lambda>row. row ! k) m) = 1
          \<and> (\<forall>r<n_columns ex_block3. m ! r ! k = (if int r = [0, 2, 1::int] ! k then 1 else 0))"
    by blast
  have s0: "sum_list (map (\<lambda>row. row ! 0) m) = 1" and s1: "sum_list (map (\<lambda>row. row ! 1) m) = 1"
    and s2: "sum_list (map (\<lambda>row. row ! 2) m) = 1"
    using oh[rule_format, of 0] oh[rule_format, of 1] oh[rule_format, of 2] by simp_all
  have e: "m ! 0 ! 0 = 1" "m ! 1 ! 0 = 0" "m ! 2 ! 0 = 0" "m ! 2 ! 1 = 1" "m ! 1 ! 2 = 1"
    using oh[rule_format, of 0, THEN conjunct2, rule_format, of 0]
      oh[rule_format, of 0, THEN conjunct2, rule_format, of 1]
      oh[rule_format, of 0, THEN conjunct2, rule_format, of 2]
      oh[rule_format, of 1, THEN conjunct2, rule_format, of 2]
      oh[rule_format, of 2, THEN conjunct2, rule_format, of 1]
    by (simp_all add: ex_block3_fields)
  from dm s0 s1 s2 e have
    "\<exists>m g'. drop_mask ex_block3 4 [0, 2, 1] (n_columns ex_block3) ex_rng = Inr (m, g')
        \<and> sum_list (map (\<lambda>row. row ! 0) m) = 1 \<and> sum_list (map (\<lambda>row. row ! 1) m) = 1
        \<and> sum_list (map (\<lambda>row. row ! 2) m) = 1
        \<and> m ! 0 ! 0 = 1 \<and> m ! 1 ! 0 = 0 \<and> m ! 2 ! 0 = 0
        \<and> m ! 2 ! 1 = 1 \<and> m ! 1 ! 2 = 1"
    by blast
  with h1 h3 h4 h5 show ?thesis by (intro conjI)
qed

section \<open>The join\<close>

lemma sum_list_map_nth:
  fixes h :: "'a \<Rightarrow> real"
  shows "sum_list (map h xs) = (\<Sum>r<length xs. h (xs ! r))"
proof -
  have "sum_list (map h xs) = (\<Sum>r = 0..<length (map h xs). map h xs ! r)"
    by (rule sum_list_sum_nth)
  also have "\<dots> = (\<Sum>r = 0..<length xs. h (xs ! r))" by (rule sum.cong) simp_all
  finally show ?thesis by (simp add: atLeast0LessThan)
qed

lemma stack_ok:
  assumes "outs \<noteq> []" "list_all (\<lambda>t. dims t = dims (hd outs)) outs"
  shows "stack outs = Inr outs"
  using assms by (simp add: stack_def)


lemma sum_dim0_nth:
  shows "length (sum_dim0 ts) = length (hd ts)"
    and "b < length (hd ts) \<Longrightarrow> length (sum_dim0 ts ! b) = length (hd ts ! b)"
    and "b < length (hd ts) \<Longrightarrow> f < length (hd ts ! b) \<Longrightarrow>
          sum_dim0 ts ! b ! f = (\<Sum>r<length ts. ts ! r ! b ! f)"
  by (simp_all add: sum_dim0_def sum_list_map_nth)

lemma dims_sum_dim0: "dims (sum_dim0 ts) = dims (hd ts)"
  by (rule nth_equalityI) (simp_all add: dims_def sum_dim0_nth)

lemma mean_dim0_nth:
  shows "dims (mean_dim0 ts) = dims (hd ts)"
    and "b < length (hd ts) \<Longrightarrow> f < length (hd ts ! b) \<Longrightarrow>
          mean_dim0 ts ! b ! f = sum_list (map (\<lambda>t. t ! b ! f) ts) / real (length ts)"
proof -
  have "dims (mean_dim0 ts) = dims (sum_dim0 ts)"
    by (simp add: dims_def mean_dim0_def)
  then show "dims (mean_dim0 ts) = dims (hd ts)" by (simp add: dims_sum_dim0)
  show "b < length (hd ts) \<Longrightarrow> f < length (hd ts ! b) \<Longrightarrow>
          mean_dim0 ts ! b ! f = sum_list (map (\<lambda>t. t ! b ! f) ts) / real (length ts)"
    by (simp add: mean_dim0_def sum_dim0_nth sum_list_map_nth)
qed

lemma join_eval:
  assumes "\<not> training blk"
  shows "join blk outs global_cols g
    = (case stack outs of Inl e \<Rightarrow> Inl e | Inr out \<Rightarrow> Inr (mean_dim0 out, g))"
  using assms by (simp add: join_def split: sum.splits)

text \<open>
  Claim C6. Outside training mode, \<open>join\<close> of a non-empty list of tensors of one shape
  returns their elementwise unweighted mean, of the same shape: each entry is the sum of
  that entry over the inputs divided by their number, for three inputs
  \<open>(t1 + t2 + t3) / 3\<close>. The result does not depend on \<open>global_cols\<close> or on the random
  source, whose state is returned unchanged.
\<close>

theorem join_inference_mean:
  assumes "\<not> training blk" "outs \<noteq> []" "list_all (\<lambda>t. dims t = dims (hd outs)) outs"
  shows "join blk outs global_cols g = Inr (mean_dim0 outs, g)
    \<and> dims (mean_dim0 outs) = dims (hd outs)
    \<and> (\<forall>b<length (hd outs). \<forall>f<length (hd outs ! b).
          mean_dim0 outs ! b ! f = sum_list (map (\<lambda>t. t ! b ! f) outs) / real (length outs))
    \<and> (\<forall>t1 t2 t3. outs = [t1, t2, t3] \<longrightarrow>
          (\<forall>b<length t1. \<forall>f<length (t1 ! b).
             mean_dim0 outs ! b ! f = (t1 ! b ! f + t2 ! b ! f + t3 ! b ! f) / 3))"
proof -
  have j: "join blk outs global_cols g = Inr (mean_dim0 outs, g)"
    using assms by (simp add: join_eval stack_ok)
  have e: "\<forall>b<length (hd outs). \<forall>f<length (hd outs ! b).
          mean_dim0 outs ! b ! f = sum_list (map (\<lambda>t. t ! b ! f) outs) / real (length outs)"
    by (simp add: mean_dim0_nth)
  have "\<forall>t1 t2 t3. outs = [t1, t2, t3] \<longrightarrow>
          (\<forall>b<length t1. \<forall>f<length (t1 ! b).
             mean_dim0 outs ! b ! f = (t1 ! b ! f + t2 ! b ! f + t3 ! b ! f) / 3)"
  proof (intro allI impI)
    fix t1 t2 t3 b f
    assume o: "outs = [t1, t2, t3]" and b: "b < length t1" and f: "f < length (t1 ! b)"
    from e o b f have "mean_dim0 outs ! b ! f
        = sum_list (map (\<lambda>t. t ! b ! f) [t1, t2, t3]) / real (length [t1, t2, t3])"
      by simp
    then show "mean_dim0 outs ! b ! f = (t1 ! b ! f + t2 ! b ! f + t3 ! b ! f) / 3"
      by simp
  qed
  with j e mean_dim0_nth(1)[of outs] show ?thesis by blast
qed

theorem join_inference_mean_witness:
  "\<not> training ex_block3_eval
   \<and> join ex_block3_eval [[[1, 2], [3, 4]], [[10, 20], [30, 40]], [[1, 2], [3, 5]]] [0] ex_rng
       = Inr (mean_dim0 [[[1, 2], [3, 4]], [[10, 20], [30, 40]], [[1, 2], [3, 5]]], ex_rng)
   \<and> mean_dim0 [[[1, 2], [3, 4]], [[10, 20], [30, 40]], [[1, 2], [3, 5]]] ! 1 ! 1
       = (4 + 40 + 5) / 3"
proof -
  let ?outs = "[[[1, 2], [3, 4]], [[10, 20], [30, 40]], [[1, 2], [3, 5::real]]]"
  have h1: "\<not> training ex_block3_eval" by (simp add: ex_block3_eval_def)
  have h2: "?outs \<noteq> []" by simp
  have h3: "list_all (\<lambda>t. dims t = dims (hd ?outs)) ?outs" by (simp add: dims_def)
  note t = join_inference_mean[OF h1 h2 h3, of "[0]" ex_rng]
  have a: "join ex_block3_eval ?outs [0] ex_rng = Inr (mean_dim0 ?outs, ex_rng)"
    by (rule t[THEN conjunct1])
  have "\<forall>b<length (hd ?outs). \<forall>f<length (hd ?outs ! b).
          mean_dim0 ?outs ! b ! f = sum_list (map (\<lambda>t. t ! b ! f) ?outs) / real (length ?outs)"
    by (rule t[THEN conjunct2, THEN conjunct2, THEN conjunct1])
  from this[rule_format, of 1 1] have b: "mean_dim0 ?outs ! 1 ! 1 = (4 + 40 + 5) / 3" by simp
  from h1 a b show ?thesis by (intro conjI)
qed






lemma div_alive_zero:
  assumes "b < length t" "b < length n_alive" "n_alive ! b = 0" "t ! b \<noteq> []"
  shows "div_alive t n_alive = Inl NonFinite"
proof -
  have "(t ! b, n_alive ! b) \<in> set (zip t n_alive)"
    using assms(1,2) by (auto simp: in_set_zip intro!: exI[of _ b])
  then have "list_ex (\<lambda>(smp, a). a = 0 \<and> smp \<noteq> []) (zip t n_alive)"
    using assms(3,4) by (auto simp: list_ex_iff)
  then show ?thesis by (simp add: div_alive_def)
qed






section \<open>The forward pass of a block\<close>

lemma assign_joined_length: "length (assign_joined outs cs joined) = length outs"
  unfolding assign_joined_def by (induction cs arbitrary: outs) simp_all

lemma assign_joined_nth:
  assumes "c < length outs"
  shows "assign_joined outs cs joined ! c = (if c \<in> set cs then joined else outs ! c)"
  using assms unfolding assign_joined_def
proof (induction cs arbitrary: outs)
  case Nil
  then show ?case by simp
next
  case (Cons a cs)
  have "c < length (outs[a := joined])" using Cons.prems by simp
  from Cons.IH[OF this] show ?case using Cons.prems by (auto simp: nth_list_update)
qed

lemma forward_step_InrE:
  assumes "forward_step blk global_cols deepest i outs g = Inr (outs', g')"
  obtains cur_outs joined where
    "i < length (count blk)"
    "apply_columns blk i outs
       [(if deepest then n_columns blk - 1 else n_columns blk - count blk ! i)..<n_columns blk]
     = Inr cur_outs"
    "join blk cur_outs global_cols g = Inr (joined, g')"
    "outs' = assign_joined outs
       [(if deepest then n_columns blk - 1 else n_columns blk - count blk ! i)..<n_columns blk]
       joined"
  using assms unfolding forward_step_def Let_def
  by (auto split: if_splits sum.splits prod.splits)

lemma forward_step_assigns:
  assumes "forward_step blk global_cols deepest i outs g = Inr (outs', g')"
    and "length outs = n_columns blk"
  shows "\<exists>cur_outs joined.
      apply_columns blk i outs
        [(if deepest then n_columns blk - 1 else n_columns blk - count blk ! i)..<n_columns blk]
        = Inr cur_outs
    \<and> join blk cur_outs global_cols g = Inr (joined, g')
    \<and> length outs' = n_columns blk
    \<and> (\<forall>c<n_columns blk. outs' ! c =
          (if (if deepest then n_columns blk - 1 else n_columns blk - count blk ! i) \<le> c
           then joined else outs ! c))"
proof -
  let ?st = "if deepest then n_columns blk - 1 else n_columns blk - count blk ! i"
  from assms(1) obtain cur_outs joined where
    a: "apply_columns blk i outs [?st..<n_columns blk] = Inr cur_outs" and
    j: "join blk cur_outs global_cols g = Inr (joined, g')" and
    o: "outs' = assign_joined outs [?st..<n_columns blk] joined"
    by (rule forward_step_InrE)
  have l: "length outs' = n_columns blk" using o assms(2) by (simp add: assign_joined_length)
  have "\<forall>c<n_columns blk. outs' ! c = (if ?st \<le> c then joined else outs ! c)"
    using o assms(2) by (simp add: assign_joined_nth)
  with a j l show ?thesis by blast
qed

lemma forward_loop_deepest_keeps:
  assumes "forward_loop blk global_cols True is outs g = Inr (outs', g')"
    and "length outs = n_columns blk" "2 \<le> n_columns blk"
  shows "length outs' = n_columns blk \<and> outs' ! 0 = outs ! 0"
  using assms
proof (induction "is" arbitrary: outs g)
  case Nil
  then show ?case by simp
next
  case (Cons i "is")
  from Cons.prems(1) obtain outs1 g1 where
    st: "forward_step blk global_cols True i outs g = Inr (outs1, g1)" and
    rest: "forward_loop blk global_cols True is outs1 g1 = Inr (outs', g')"
    by (auto split: sum.splits prod.splits)
  from forward_step_assigns[OF st Cons.prems(2)] have
    l1: "length outs1 = n_columns blk"
    by auto
  from forward_step_assigns[OF st Cons.prems(2)] obtain joined where
    e: "\<forall>c<n_columns blk. outs1 ! c = (if n_columns blk - 1 \<le> c then joined else outs ! c)"
    by auto
  have "outs1 ! 0 = outs ! 0" using e Cons.prems(3) by simp
  with Cons.IH[OF rest l1 Cons.prems(3)] show ?case by simp
qed

lemma ex_block2_eval_eq:
  "ex_block2_eval = \<lparr>n_columns = 2,
     columns = [[None, Some \<lparr>cb_C_in = 3, cb_C_out = 16, cb_dropout = None, cb_apply = ex_kern 0 1\<rparr>],
                [Some \<lparr>cb_C_in = 3, cb_C_out = 16, cb_dropout = None, cb_apply = ex_kern 1 0\<rparr>,
                 Some \<lparr>cb_C_in = 16, cb_C_out = 16, cb_dropout = None, cb_apply = ex_kern 1 1\<rparr>]],
     max_depth = 2, p_local_drop = 1 / 2, doubler = None, count = [1, 2], training = False\<rparr>"
  by (simp add: ex_block2_eval_def ex_block2_def init_eval)

lemma upt_1_2: "[Suc 0..<2] = [Suc 0]"
  by (simp add: numeral_2_eq_2)

lemmas forward_eval = upt_1_2 forward_step_def join_def stack_def dims_def mean_dim0_def sum_dim0_def
  assign_joined_def ex_kern_def Let_def

lemma ex_step0:
  "forward_step ex_block2_eval [] False 0 [[[0]], [[0]]] ex_rng = Inr ([[[0]], [[2]]], ex_rng)"
  by (simp add: ex_block2_eval_eq forward_eval)

lemma ex_loop_deepest:
  "forward_loop ex_block2_eval [] True [0, 1] [[[0]], [[0]]] ex_rng = Inr ([[[0]], [[6]]], ex_rng)"
  by (simp add: ex_block2_eval_eq forward_eval)

lemma ex_forward_deepest:
  "FractalBlock_forward ex_block2_eval [[0]] [] True ex_rng = Inr ([[0]], ex_rng)"
  by (simp add: FractalBlock_forward_def upt_0_2 replicate_2 ex_block2_eval_eq forward_eval)

lemma ex_forward_full:
  "FractalBlock_forward ex_block2_eval [[0]] [] False ex_rng = Inr ([[7 / 2]], ex_rng)"
  by (simp add: FractalBlock_forward_def upt_0_2 replicate_2 ex_block2_eval_eq forward_eval)

lemma ex_block2_eval_n: "n_columns ex_block2_eval = 2"
  by (simp add: ex_block2_eval_eq)

text \<open>
  Claim C2, as amended. In \<open>forward\<close> without \<open>deepest\<close>, the step for depth \<open>i\<close> assigns
  the joined result of the active paths as the new running output of exactly the
  columns active at that depth, \<open>n_columns - count ! i, ..., n_columns - 1\<close>; a column
  inactive at depth \<open>i\<close> keeps its running output.
\<close>

theorem forward_step_active_columns:
  assumes "forward_step blk global_cols False i outs g = Inr (outs', g')"
    and "length outs = n_columns blk"
  shows "\<exists>cur_outs joined.
      apply_columns blk i outs [n_columns blk - count blk ! i..<n_columns blk] = Inr cur_outs
    \<and> join blk cur_outs global_cols g = Inr (joined, g')
    \<and> length outs' = n_columns blk
    \<and> (\<forall>c<n_columns blk. outs' ! c =
          (if n_columns blk - count blk ! i \<le> c then joined else outs ! c))"
  using forward_step_assigns[OF assms] by simp

theorem forward_step_active_columns_witness:
  "forward_step ex_block2_eval [] False 0 [[[0]], [[0]]] ex_rng = Inr ([[[0]], [[2]]], ex_rng)
   \<and> length [[[0]], [[0::real]]] = n_columns ex_block2_eval
   \<and> (\<exists>cur_outs joined.
        apply_columns ex_block2_eval 0 [[[0]], [[0]]]
          [n_columns ex_block2_eval - count ex_block2_eval ! 0..<n_columns ex_block2_eval]
          = Inr cur_outs
      \<and> join ex_block2_eval cur_outs [] ex_rng = Inr (joined, ex_rng)
      \<and> [[[0]], [[2]]] ! 1 = joined \<and> [[[0]], [[2]]] ! 0 = [[[0]], [[0::real]]] ! 0)"
proof -
  have h2: "length [[[0]], [[0::real]]] = n_columns ex_block2_eval"
    by (simp add: ex_block2_eval_n)
  from forward_step_active_columns[OF ex_step0 h2] obtain cur_outs joined where
    a: "apply_columns ex_block2_eval 0 [[[0]], [[0]]]
          [n_columns ex_block2_eval - count ex_block2_eval ! 0..<n_columns ex_block2_eval]
          = Inr cur_outs"
    and j: "join ex_block2_eval cur_outs [] ex_rng = Inr (joined, ex_rng)"
    and e: "\<forall>c<n_columns ex_block2_eval. [[[0]], [[2::real]]] ! c =
          (if n_columns ex_block2_eval - count ex_block2_eval ! 0 \<le> c then joined
           else [[[0]], [[0]]] ! c)"
    by blast
  have c0: "count ex_block2_eval ! 0 = 1" by (simp add: ex_block2_eval_eq)
  have e1: "[[[0]], [[2::real]]] ! 1 = joined"
    using e[rule_format, of 1] by (simp add: ex_block2_eval_n c0)
  have e0: "[[[0]], [[2::real]]] ! 0 = [[[0]], [[0::real]]] ! 0" by simp
  from a j e1 e0 have "\<exists>cur_outs joined.
        apply_columns ex_block2_eval 0 [[[0]], [[0]]]
          [n_columns ex_block2_eval - count ex_block2_eval ! 0..<n_columns ex_block2_eval]
          = Inr cur_outs
      \<and> join ex_block2_eval cur_outs [] ex_rng = Inr (joined, ex_rng)
      \<and> [[[0]], [[2]]] ! 1 = joined \<and> [[[0]], [[2]]] ! 0 = [[[0]], [[0::real]]] ! 0"
    by blast
  with ex_step0 h2 show ?thesis by (intro conjI)
qed

text \<open>
  The claim as stated fails: in a block of two columns, after depth 0 the running output
  of the inactive column 0 is still the input \<open>[[0]]\<close>, not the joined value \<open>[[2]]\<close>.
\<close>

theorem forward_step_broadcast_counterexample:
  "forward_step ex_block2_eval [] False 0 [[[0]], [[0]]] ex_rng = Inr ([[[0]], [[2]]], ex_rng)
   \<and> join ex_block2_eval [ex_kern 1 0 [[0]]] [] ex_rng = Inr ([[2]], ex_rng)
   \<and> [[[0]], [[2::real]]] ! 0 \<noteq> [[2]]"
proof -
  have "join ex_block2_eval [ex_kern 1 0 [[0]]] [] ex_rng = Inr ([[2]], ex_rng)"
    by (simp add: ex_block2_eval_eq forward_eval)
  moreover have "[[[0]], [[2::real]]] ! 0 \<noteq> [[2]]" by simp
  ultimately show ?thesis using ex_step0 by (intro conjI)
qed

text \<open>
  Claim C1 is about the value \<open>forward\<close> returns with \<open>deepest = True\<close>. The steps
  evaluate the deepest column only (\<open>deepest_step_single_leaf\<close> below), but the
  function returns the running output of column 0, which no such step assigns when the
  block has two or more columns: the result is the block's input (after the optional
  doubler), not the output of the deepest column's chain.
\<close>

theorem deepest_returns_block_input:
  assumes "2 \<le> n_columns blk"
    and "FractalBlock_forward blk x global_cols True g = Inr (y, g')"
  shows "y = (case doubler blk of Some d \<Rightarrow> cb_apply d x | None \<Rightarrow> x)"
proof -
  let ?out = "case doubler blk of Some d \<Rightarrow> cb_apply d x | None \<Rightarrow> x"
  from assms(2) obtain outs' where
    lp: "forward_loop blk global_cols True [0..<max_depth blk] (replicate (n_columns blk) ?out) g
          = Inr (outs', g')"
    and y: "y = outs' ! 0"
    unfolding FractalBlock_forward_def Let_def
    by (auto split: sum.splits prod.splits if_splits)
  have l: "length (replicate (n_columns blk) ?out) = n_columns blk" by simp
  from forward_loop_deepest_keeps[OF lp l assms(1)]
  have "outs' ! 0 = replicate (n_columns blk) ?out ! 0" by simp
  also have "\<dots> = ?out" using assms(1) by simp
  finally show ?thesis using y by simp
qed

theorem deepest_returns_block_input_witness:
  "2 \<le> n_columns ex_block2_eval
   \<and> FractalBlock_forward ex_block2_eval [[0]] [] True ex_rng = Inr ([[0]], ex_rng)
   \<and> forward_loop ex_block2_eval [] True [0, 1] [[[0]], [[0]]] ex_rng
       = Inr ([[[0]], [[6]]], ex_rng)
   \<and> [[0::real]] = (case doubler ex_block2_eval of Some d \<Rightarrow> cb_apply d [[0]] | None \<Rightarrow> [[0]])"
proof -
  have h1: "2 \<le> n_columns ex_block2_eval" by (simp add: ex_block2_eval_n)
  note t = deepest_returns_block_input[OF h1 ex_forward_deepest]
  from h1 ex_forward_deepest ex_loop_deepest t show ?thesis by (intro conjI)
qed

lemma deepest_step_single_leaf:
  assumes "forward_step blk global_cols True i outs g = Inr (outs', g')" "1 \<le> n_columns blk"
  shows "\<exists>m joined. columns blk ! (n_columns blk - 1) ! i = Some m
    \<and> join blk [cb_apply m (outs ! (n_columns blk - 1))] global_cols g = Inr (joined, g')
    \<and> outs' = outs[n_columns blk - 1 := joined]"
proof -
  have r: "[n_columns blk - 1..<n_columns blk] = [n_columns blk - 1]"
    using assms(2) by (simp add: upt_conv_Cons)
  from assms(1) obtain cur_outs joined where
    a0: "apply_columns blk i outs
       [(if True then n_columns blk - 1 else n_columns blk - count blk ! i)..<n_columns blk]
       = Inr cur_outs" and
    j: "join blk cur_outs global_cols g = Inr (joined, g')" and
    o0: "outs' = assign_joined outs
       [(if True then n_columns blk - 1 else n_columns blk - count blk ! i)..<n_columns blk]
       joined"
    by (rule forward_step_InrE)
  have a: "apply_columns blk i outs [n_columns blk - 1] = Inr cur_outs"
    using a0 r by (simp only: if_True)
  have o: "outs' = assign_joined outs [n_columns blk - 1] joined"
    using o0 r by (simp only: if_True)
  from a obtain m where m: "columns blk ! (n_columns blk - 1) ! i = Some m"
    and c: "cur_outs = [cb_apply m (outs ! (n_columns blk - 1))]"
    by (auto split: if_splits option.splits)
  from m c j o show ?thesis by (simp add: assign_joined_def)
qed

section \<open>The forward pass of the network\<close>

lemma join_pure:
  assumes "\<not> training blk"
  shows "join blk outs global_cols g
    = map_sum id (\<lambda>out. (out, g)) (map_sum id mean_dim0 (stack outs))"
  using assms by (cases "stack outs") (simp_all add: join_def)

lemma forward_step_pure:
  assumes "\<not> training blk"
  shows "\<exists>r. \<forall>global_cols g.
    forward_step blk global_cols deepest i outs g = map_sum id (\<lambda>outs'. (outs', g)) r"
proof (cases "length (count blk) \<le> i")
  case True
  then have "\<forall>global_cols g.
    forward_step blk global_cols deepest i outs g = map_sum id (\<lambda>outs'. (outs', g)) (Inl IndexError)"
    by (simp add: forward_step_def)
  then show ?thesis by blast
next
  case False
  let ?st = "if deepest then n_columns blk - 1 else n_columns blk - count blk ! i"
  show ?thesis
  proof (cases "apply_columns blk i outs [?st..<n_columns blk]")
    case (Inl e)
    with False have "\<forall>global_cols g.
      forward_step blk global_cols deepest i outs g = map_sum id (\<lambda>outs'. (outs', g)) (Inl e)"
      by (simp add: forward_step_def)
    then show ?thesis by blast
  next
    case (Inr cur_outs)
    show ?thesis
    proof (cases "stack cur_outs")
      case (Inl e)
      with Inr False assms have "\<forall>global_cols g.
        forward_step blk global_cols deepest i outs g = map_sum id (\<lambda>outs'. (outs', g)) (Inl e)"
        by (simp add: forward_step_def join_pure)
      then show ?thesis by blast
    next
      case r: (Inr out)
      with Inr False assms have "\<forall>global_cols g.
        forward_step blk global_cols deepest i outs g = map_sum id (\<lambda>outs'. (outs', g))
          (Inr (assign_joined outs [?st..<n_columns blk] (mean_dim0 out)))"
        by (simp add: forward_step_def join_pure)
      then show ?thesis by blast
    qed
  qed
qed

lemma forward_loop_pure:
  assumes "\<not> training blk"
  shows "\<exists>r. \<forall>global_cols g.
    forward_loop blk global_cols deepest is outs g = map_sum id (\<lambda>outs'. (outs', g)) r"
proof (induction "is" arbitrary: outs)
  case Nil
  have "\<forall>global_cols g.
    forward_loop blk global_cols deepest [] outs g = map_sum id (\<lambda>outs'. (outs', g)) (Inr outs)"
    by simp
  then show ?case by blast
next
  case (Cons i "is")
  from forward_step_pure[OF assms, of deepest i outs] obtain r1 where
    r1: "\<forall>global_cols g.
      forward_step blk global_cols deepest i outs g = map_sum id (\<lambda>outs'. (outs', g)) r1"
    by blast
  show ?case
  proof (cases r1)
    case (Inl e)
    with r1 have "\<forall>global_cols g.
      forward_loop blk global_cols deepest (i # is) outs g
        = map_sum id (\<lambda>outs'. (outs', g)) (Inl e)"
      by simp
    then show ?thesis by blast
  next
    case (Inr outs1)
    from Cons.IH[of outs1] obtain r where
      r: "\<forall>global_cols g.
        forward_loop blk global_cols deepest is outs1 g = map_sum id (\<lambda>outs'. (outs', g)) r"
      by blast
    from r1 Inr r have "\<forall>global_cols g.
      forward_loop blk global_cols deepest (i # is) outs g = map_sum id (\<lambda>outs'. (outs', g)) r"
      by simp
    then show ?thesis by blast
  qed
qed

lemma FractalBlock_forward_pure:
  assumes "\<not> training blk"
  shows "\<exists>r. \<forall>global_cols g.
    FractalBlock_forward blk x global_cols deepest g = map_sum id (\<lambda>y. (y, g)) r"
proof -
  let ?out = "case doubler blk of Some d \<Rightarrow> cb_apply d x | None \<Rightarrow> x"
  from forward_loop_pure[OF assms, of deepest "[0..<max_depth blk]"
      "replicate (n_columns blk) ?out"] obtain r where
    r: "\<forall>global_cols g.
      forward_loop blk global_cols deepest [0..<max_depth blk] (replicate (n_columns blk) ?out) g
        = map_sum id (\<lambda>outs'. (outs', g)) r"
    by blast
  show ?thesis
  proof (cases r)
    case (Inl e)
    with r have "\<forall>global_cols g.
      FractalBlock_forward blk x global_cols deepest g = map_sum id (\<lambda>y. (y, g)) (Inl e)"
      by (simp add: FractalBlock_forward_def)
    then show ?thesis by blast
  next
    case (Inr outs')
    with r have "\<forall>global_cols g.
      FractalBlock_forward blk x global_cols deepest g = map_sum id (\<lambda>y. (y, g))
        (if outs' = [] then Inl IndexError else Inr (outs' ! 0))"
      by (simp add: FractalBlock_forward_def)
    then show ?thesis by blast
  qed
qed

lemma net_loop_eval:
  assumes "list_all (\<lambda>l. case l of Fractal blk \<Rightarrow> \<not> training blk | Plain f \<Rightarrow> True) ls"
    and "gco1 = None \<longleftrightarrow> gco2 = None"
  shows "map_sum id fst (net_loop net GB deepest ls out gco1 g1)
       = map_sum id fst (net_loop net GB deepest ls out gco2 g2)"
  using assms
proof (induction ls arbitrary: out gco1 gco2 g1 g2)
  case Nil
  then show ?case by simp
next
  case (Cons l ls)
  show ?case
  proof (cases l)
    case (Plain f)
    with Cons show ?thesis by simp
  next
    case (Fractal blk)
    with Cons.prems(1) have ev: "\<not> training blk"
      and rest: "list_all (\<lambda>l. case l of Fractal blk \<Rightarrow> \<not> training blk | Plain f \<Rightarrow> True) ls"
      by simp_all
    from FractalBlock_forward_pure[OF ev, of out deepest] obtain r where
      r: "\<forall>global_cols g.
        FractalBlock_forward blk out global_cols deepest g = map_sum id (\<lambda>y. (y, g)) r"
      by blast
    let ?sample = "\<not> consist_gdrop net \<or> gco1 = None"
    have same: "(\<not> consist_gdrop net \<or> gco2 = None) = ?sample" using Cons.prems(2) by simp
    let ?c1 = "if ?sample then randint 0 (int (net_n_columns net)) GB g1 else Inr (the gco1, g1)"
    let ?c2 = "if ?sample then randint 0 (int (net_n_columns net)) GB g2 else Inr (the gco2, g2)"
    have "(\<exists>gc1 h1 gc2 h2. ?c1 = Inr (gc1, h1) \<and> ?c2 = Inr (gc2, h2))
        \<or> (?c1 = Inl ValueError \<and> ?c2 = Inl ValueError)"
      by (simp add: randint_def)
    then show ?thesis
    proof
      assume "?c1 = Inl ValueError \<and> ?c2 = Inl ValueError"
      then show ?thesis using Fractal same by simp
    next
      assume "\<exists>gc1 h1 gc2 h2. ?c1 = Inr (gc1, h1) \<and> ?c2 = Inr (gc2, h2)"
      then obtain gc1 h1 gc2 h2 where c: "?c1 = Inr (gc1, h1)" "?c2 = Inr (gc2, h2)" by blast
      show ?thesis
      proof (cases r)
        case (Inl e)
        with r c Fractal same show ?thesis by simp
      next
        case (Inr y)
        have ih: "map_sum id fst (net_loop net GB deepest ls y (Some gc1) h1)
            = map_sum id fst (net_loop net GB deepest ls y (Some gc2) h2)"
          by (rule Cons.IH[OF rest]) simp
        have e1: "net_loop net GB deepest (l # ls) out gco1 g1
            = net_loop net GB deepest ls y (Some gc1) h1"
          using r c(1) Fractal Inr by simp
        have e2: "net_loop net GB deepest (l # ls) out gco2 g2
            = net_loop net GB deepest ls y (Some gc2) h2"
          using r c(2) Fractal Inr same by simp
        show ?thesis unfolding e1 e2 by (rule ih)
      qed
    qed
  qed
qed

lemma drop_cols_simps:
  "drop_cols (Inl e) = Inl e" "drop_cols (Inr (out, gco, g')) = Inr (out, g')"
  by (simp_all add: drop_cols_def)

lemma net_loop_reuses:
  assumes "consist_gdrop net"
  shows "drop_cols (net_loop net GB deepest ls out (Some gc) g) = spec_pass_with deepest gc ls out g"
proof (induction ls arbitrary: out g)
  case Nil
  then show ?case by (simp add: drop_cols_simps)
next
  case (Cons l ls)
  show ?case
  proof (cases l)
    case (Plain f)
    with Cons show ?thesis by simp
  next
    case (Fractal blk)
    show ?thesis
    proof (cases "FractalBlock_forward blk out gc deepest g")
      case (Inl e)
      with Fractal assms show ?thesis by (simp add: drop_cols_simps)
    next
      case (Inr p)
      obtain out' g' where p: "p = (out', g')" by (cases p)
      with Inr Fractal assms Cons.IH[of out' g'] show ?thesis by simp
    qed
  qed
qed

lemma net_loop_samples_once:
  assumes "consist_gdrop net"
  shows "drop_cols (net_loop net GB deepest ls out None g)
       = spec_pass_consistent (net_n_columns net) GB deepest ls out g"
proof (induction ls arbitrary: out g)
  case Nil
  then show ?case by (simp add: drop_cols_simps)
next
  case (Cons l ls)
  show ?case
  proof (cases l)
    case (Plain f)
    with Cons show ?thesis by simp
  next
    case (Fractal blk)
    show ?thesis
    proof (cases "randint 0 (int (net_n_columns net)) GB g")
      case (Inl e)
      with Fractal show ?thesis by (simp add: drop_cols_simps)
    next
      case (Inr p)
      obtain gc g1 where p: "p = (gc, g1)" by (cases p)
      show ?thesis
      proof (cases "FractalBlock_forward blk out gc deepest g1")
        case (Inl e)
        with Inr p Fractal show ?thesis by (simp add: drop_cols_simps)
      next
        case r: (Inr q)
        obtain out' g2 where q: "q = (out', g2)" by (cases q)
        from net_loop_reuses[OF assms, of GB deepest ls out' gc g2] r q Inr p Fractal
        show ?thesis by simp
      qed
    qed
  qed
qed

lemma net_loop_resamples:
  assumes "\<not> consist_gdrop net"
  shows "drop_cols (net_loop net GB deepest ls out gco g)
       = spec_pass_resampling (net_n_columns net) GB deepest ls out g"
proof (induction ls arbitrary: out gco g)
  case Nil
  then show ?case by (cases gco) (simp_all add: drop_cols_simps)
next
  case (Cons l ls)
  show ?case
  proof (cases l)
    case (Plain f)
    with Cons show ?thesis by simp
  next
    case (Fractal blk)
    show ?thesis
    proof (cases "randint 0 (int (net_n_columns net)) GB g")
      case (Inl e)
      with Fractal assms show ?thesis by (simp add: drop_cols_simps)
    next
      case (Inr p)
      obtain gc g1 where p: "p = (gc, g1)" by (cases p)
      show ?thesis
      proof (cases "FractalBlock_forward blk out gc deepest g1")
        case (Inl e)
        with Inr p Fractal assms show ?thesis by (simp add: drop_cols_simps)
      next
        case r: (Inr q)
        obtain out' g2 where q: "q = (out', g2)" by (cases q)
        from Cons.IH[of out' "Some gc" g2] r q Inr p Fractal assms
        show ?thesis by simp
      qed
    qed
  qed
qed


subsection \<open>The number of globally dropped samples\<close>

text \<open>Evaluation of the float operations of line 242 on small inputs.\<close>

lemmas float_eval = round64_def float_exponent_def pow2_def round_even_def ilog2.simps Let_def

lemma round64_2: "round64 2 = Some 2"
  by (simp add: float_eval)

lemma round64_1: "round64 (2 * (1 / 2)) = Some 1"
  by (simp add: float_eval)

lemma round64_minus_half: "round64 (2 * - (1 / 4)) = Some (- (1 / 2))"
  by (simp add: float_eval)

lemma round64_half: "round64 (1 / 2) = Some (1 / 2)"
  by (simp add: float_eval)

lemma round64_minus_quarter: "round64 (- (1 / 4)) = Some (- (1 / 4))"
  by (simp add: float_eval)

lemma round64_07: "round64 (7 / 10) = Some (3152519739159347 / 4503599627370496)"
  by (simp add: float_eval)

lemma round64_029: "round64 (29 / 100) = Some (5224175567749775 / 18014398509481984)"
  by (simp add: float_eval)

lemma ex_GB: "compute_GB ex_net [[0], [1]] = Inr 1"
  by (simp add: compute_GB_def ex_net_def float_eval py_int_def)

lemma ceiling_minus_half: "\<lceil>- (1 / 2) :: real\<rceil> = 0"
  by (simp add: ceiling_def)

lemma ex_GB_negative: "compute_GB ex_net_negative [[0], [1]] = Inr 0"
  by (simp add: compute_GB_def ex_net_negative_def ex_net_def float_eval py_int_def
      ceiling_minus_half)

lemma ex_GB_07: "compute_GB ex_net_07 (replicate 10 [0]) = Inr 7"
  by (simp add: compute_GB_def ex_net_07_def ex_net_def float_eval py_int_def)

lemma ex_GB_029: "compute_GB ex_net_029 (replicate 100 [0]) = Inr 28"
  by (simp add: compute_GB_def ex_net_029_def ex_net_def float_eval py_int_def)

lemma pow2_pos: "0 < pow2 e"
  by (simp add: pow2_def)

lemma round_even_nonneg:
  assumes "0 \<le> y"
  shows "0 \<le> round_even y"
proof -
  have "0 \<le> \<lfloor>y\<rfloor>" using assms by simp
  then show ?thesis by (simp add: round_even_def Let_def)
qed

lemma round_even_nonpos:
  assumes "y \<le> 0"
  shows "round_even y \<le> 0"
proof -
  have f: "\<lfloor>y\<rfloor> \<le> 0" using assms by (simp add: floor_le_iff) 
  have "1 / 2 \<le> y - of_int \<lfloor>y\<rfloor> \<Longrightarrow> \<lfloor>y\<rfloor> + 1 \<le> 0"
  proof -
    assume "1 / 2 \<le> y - of_int \<lfloor>y\<rfloor>"
    then have "real_of_int \<lfloor>y\<rfloor> \<le> - (1 / 2)" using assms by linarith
    then have "real_of_int \<lfloor>y\<rfloor> < 0" by linarith
    then have "\<lfloor>y\<rfloor> < 0" by linarith
    then show ?thesis by linarith
  qed
  with f show ?thesis by (auto simp: round_even_def Let_def not_less)
qed

lemma round64_nonneg:
  assumes "0 \<le> x" "round64 x = Some r"
  shows "0 \<le> r"
proof (cases "x = 0")
  case True
  with assms(2) show ?thesis by (simp add: round64_def)
next
  case False
  let ?q = "pow2 (max (float_exponent \<bar>x\<bar>) (- 1022) - 52)"
  from assms(2) False have r: "r = of_int (round_even (x / ?q)) * ?q"
    by (simp add: round64_def Let_def split: if_splits)
  have "0 \<le> x / ?q" using assms(1) pow2_pos[of "max (float_exponent \<bar>x\<bar>) (- 1022) - 52"]
    by simp
  then have "0 \<le> round_even (x / ?q)" by (rule round_even_nonneg)
  then show ?thesis unfolding r
    using pow2_pos[of "max (float_exponent \<bar>x\<bar>) (- 1022) - 52"] by simp
qed

lemma round64_nonpos:
  assumes "x \<le> 0" "round64 x = Some r"
  shows "r \<le> 0"
proof (cases "x = 0")
  case True
  with assms(2) show ?thesis by (simp add: round64_def)
next
  case False
  let ?q = "pow2 (max (float_exponent \<bar>x\<bar>) (- 1022) - 52)"
  from assms(2) False have r: "r = of_int (round_even (x / ?q)) * ?q"
    by (simp add: round64_def Let_def split: if_splits)
  have q: "0 < ?q" by (rule pow2_pos)
  have "x / ?q \<le> 0" using assms(1) q by (simp add: divide_nonpos_pos)
  then have "round_even (x / ?q) \<le> 0" by (rule round_even_nonpos)
  then have "real_of_int (round_even (x / ?q)) \<le> 0" by simp
  then show ?thesis unfolding r using q by (simp add: mult_nonpos_nonneg)
qed

text \<open>The pass once \<open>GB\<close> is computed, and the example network.\<close>

lemma FractalNet_forward_GB:
  assumes "compute_GB net x = Inr GB"
  shows "FractalNet_forward net x deepest g
    = drop_cols (net_loop net GB deepest (layers net) x None g)"
  using assms by (simp add: FractalNet_forward_def drop_cols_def)

lemma ex_net_loop:
  "drop_cols (net_loop ex_net 1 False (layers ex_net) [[0], [1]] None g)
     = Inr ([[7 / 4], [13 / 4]], advance 1 g)"
  by (simp add: ex_net_def randint_def drop_cols_def
      FractalBlock_forward_def upt_0_2 replicate_2 ex_block2_eval_eq forward_eval)

lemma ex_net_forward:
  "map_sum id fst (FractalNet_forward ex_net [[0], [1]] False ex_rng) = Inr [[7 / 4], [13 / 4]]"
  by (simp add: FractalNet_forward_GB[OF ex_GB] ex_net_loop)

lemma ex_net_inference: "inference_mode ex_net"
  by (simp add: inference_mode_def ex_net_def ex_block2_eval_eq)

lemma ex_net_consistent_GB: "compute_GB ex_net_consistent [[0], [1]] = Inr 1"
  by (simp add: compute_GB_def ex_net_consistent_def float_eval py_int_def)

lemma ex_net_negative_loop:
  "drop_cols (net_loop ex_net_negative 0 False (layers ex_net_negative) [[0], [1]] None g)
     = Inr ([[7 / 4], [13 / 4]], g)"
  by (simp add: ex_net_negative_def ex_net_def randint_def drop_cols_def advance_def
      FractalBlock_forward_def upt_0_2 replicate_2 ex_block2_eval_eq forward_eval)

lemma ex_randint: "randint 0 (int (net_n_columns ex_net)) 1 ex_rng = Inr ([1], advance 1 ex_rng)"
  by (simp add: randint_def ex_net_def ex_rng_def)

lemma round64_length_10: "round64 (real (length (replicate 10 [0::real]))) = Some 10"
  by (simp add: float_eval)

lemma round64_length_100: "round64 (real (length (replicate 100 [0::real]))) = Some 100"
  by (simp add: float_eval)

lemma round64_length_2: "round64 (real (length [[0], [1::real]])) = Some 2"
  by (simp add: float_eval)

lemma round64_029_product:
  "round64 (100 * (5224175567749775 / 18014398509481984))
     = Some (8162774324609023 / 281474976710656)"
  by (simp add: float_eval)

lemma round64_07_product: "round64 (10 * (3152519739159347 / 4503599627370496)) = Some 7"
  by (simp add: float_eval)

subsection \<open>Inference is deterministic\<close>

text \<open>
  Claim C9. With every block in inference mode, the output of \<open>FractalNet_forward\<close>
  (its tensor, or the exception it raises) is the same for any two states of the random
  source: no drop mask is generated, and the sampled global choices are not used.
\<close>

theorem inference_deterministic:
  assumes "inference_mode net"
  shows "map_sum id fst (FractalNet_forward net x deepest g1)
       = map_sum id fst (FractalNet_forward net x deepest g2)"
proof (cases "compute_GB net x")
  case (Inl e)
  then show ?thesis by (simp add: FractalNet_forward_def)
next
  case (Inr GB)
  from assms have ev:
    "list_all (\<lambda>l. case l of Fractal blk \<Rightarrow> \<not> training blk | Plain f \<Rightarrow> True) (layers net)"
    by (simp add: inference_mode_def)
  have e: "map_sum id fst (net_loop net GB deepest (layers net) x None g1)
         = map_sum id fst (net_loop net GB deepest (layers net) x None g2)"
    by (rule net_loop_eval[OF ev]) simp
  have f: "\<And>g. map_sum id fst (FractalNet_forward net x deepest g)
      = map_sum id fst (net_loop net GB deepest (layers net) x None g)"
    using Inr by (simp add: FractalNet_forward_def split: sum.splits)
  show ?thesis unfolding f by (rule e)
qed

theorem inference_deterministic_witness:
  "inference_mode ex_net
   \<and> map_sum id fst (FractalNet_forward ex_net [[0], [1]] False ex_rng)
       = map_sum id fst (FractalNet_forward ex_net [[0], [1]] False ex_rng2)
   \<and> map_sum id fst (FractalNet_forward ex_net [[0], [1]] False ex_rng2)
       = Inr [[7 / 4], [13 / 4]]"
proof -
  note t = inference_deterministic[OF ex_net_inference, of "[[0], [1]]" False ex_rng ex_rng2]
  from t ex_net_forward have
    "map_sum id fst (FractalNet_forward ex_net [[0], [1]] False ex_rng2) = Inr [[7 / 4], [13 / 4]]"
    by simp
  with ex_net_inference t show ?thesis by (intro conjI)
qed


subsection \<open>The policy of the global choice\<close>

text \<open>
  Claim C8, as amended. \<open>FractalNet_forward\<close> is the pass of the specification for the
  \<open>GB\<close> that line 242 computes: with \<open>consist_gdrop\<close> one choice is sampled before the
  first block and reused by every later block, without it a fresh choice is sampled
  before every block. When the batch size \<open>B\<close>, the ratio and their product are finite
  floats \<open>b\<close>, \<open>r\<close> and \<open>p\<close>, \<open>GB\<close> is \<open>p\<close> truncated toward zero, where \<open>p\<close> is the
  float nearest to \<open>b * r\<close>: the floor of \<open>p\<close> for a ratio \<open>\<ge> 0\<close>, its ceiling for a
  ratio \<open>\<le> 0\<close>. Every choice sampled for a length \<open>GB\<close> has \<open>GB\<close> entries, each in
  \<open>[0, n_columns)\<close>.
\<close>

theorem global_choice_policy:
  "FractalNet_forward net x deepest g
     = (case compute_GB net x of Inl e \<Rightarrow> Inl e | Inr GB \<Rightarrow> spec_forward net GB x deepest g)
   \<and> (\<forall>b r p. round64 (real (length x)) = Some b \<and> round64 (gdrop_ratio net) = Some r
         \<and> round64 (b * r) = Some p \<longrightarrow>
         compute_GB net x = Inr (py_int p)
       \<and> (0 \<le> gdrop_ratio net \<longrightarrow> py_int p = \<lfloor>p\<rfloor>)
       \<and> (gdrop_ratio net \<le> 0 \<longrightarrow> py_int p = \<lceil>p\<rceil>))
   \<and> (\<forall>GB h gc h1. randint 0 (int (net_n_columns net)) GB h = Inr (gc, h1) \<longrightarrow>
         length gc = nat GB \<and> (\<forall>c\<in>set gc. 0 \<le> c \<and> c < int (net_n_columns net)))"
proof -
  have eq: "FractalNet_forward net x deepest g
     = (case compute_GB net x of Inl e \<Rightarrow> Inl e | Inr GB \<Rightarrow> spec_forward net GB x deepest g)"
  proof (cases "compute_GB net x")
    case (Inl e)
    then show ?thesis by (simp add: FractalNet_forward_def)
  next
    case (Inr GB)
    show ?thesis
    proof (cases "consist_gdrop net")
      case True
      then show ?thesis unfolding FractalNet_forward_GB[OF Inr]
        using Inr by (simp add: spec_forward_def net_loop_samples_once)
    next
      case False
      then show ?thesis unfolding FractalNet_forward_GB[OF Inr]
        using Inr by (simp add: spec_forward_def net_loop_resamples)
    qed
  qed
  have gb: "\<forall>b r p. round64 (real (length x)) = Some b \<and> round64 (gdrop_ratio net) = Some r
         \<and> round64 (b * r) = Some p \<longrightarrow>
         compute_GB net x = Inr (py_int p)
       \<and> (0 \<le> gdrop_ratio net \<longrightarrow> py_int p = \<lfloor>p\<rfloor>)
       \<and> (gdrop_ratio net \<le> 0 \<longrightarrow> py_int p = \<lceil>p\<rceil>)"
  proof (intro allI impI)
    fix b r p
    assume h: "round64 (real (length x)) = Some b \<and> round64 (gdrop_ratio net) = Some r
         \<and> round64 (b * r) = Some p"
    have b0: "0 \<le> b" by (rule round64_nonneg[of "real (length x)"]) (use h in simp_all)
    have c: "compute_GB net x = Inr (py_int p)" using h by (simp add: compute_GB_def)
    have f: "0 \<le> gdrop_ratio net \<longrightarrow> py_int p = \<lfloor>p\<rfloor>"
    proof
      assume "0 \<le> gdrop_ratio net"
      then have "0 \<le> r" by (rule round64_nonneg) (use h in simp)
      then have "0 \<le> b * r" using b0 by simp
      then have "0 \<le> p" by (rule round64_nonneg) (use h in simp)
      then show "py_int p = \<lfloor>p\<rfloor>" by (simp add: py_int_def)
    qed
    have cl: "gdrop_ratio net \<le> 0 \<longrightarrow> py_int p = \<lceil>p\<rceil>"
    proof
      assume "gdrop_ratio net \<le> 0"
      then have "r \<le> 0" by (rule round64_nonpos) (use h in simp)
      then have "b * r \<le> 0" using b0 by (simp add: mult_nonneg_nonpos)
      then have "p \<le> 0" by (rule round64_nonpos) (use h in simp)
      then show "py_int p = \<lceil>p\<rceil>" by (cases "p = 0") (simp_all add: py_int_def)
    qed
    from c f cl show "compute_GB net x = Inr (py_int p)
       \<and> (0 \<le> gdrop_ratio net \<longrightarrow> py_int p = \<lfloor>p\<rfloor>)
       \<and> (gdrop_ratio net \<le> 0 \<longrightarrow> py_int p = \<lceil>p\<rceil>)"
      by blast
  qed
  have smp: "\<forall>GB h gc h1. randint 0 (int (net_n_columns net)) GB h = Inr (gc, h1) \<longrightarrow>
         length gc = nat GB \<and> (\<forall>c\<in>set gc. 0 \<le> c \<and> c < int (net_n_columns net))"
  proof (intro allI impI)
    fix GB h gc h1 assume r: "randint 0 (int (net_n_columns net)) GB h = Inr (gc, h1)"
    note ri = randint_Inr[OF r]
    have "\<forall>c\<in>set gc. 0 \<le> c \<and> c < int (net_n_columns net)"
      using ri(3,4) by (auto simp: in_set_conv_nth)
    with ri(3) show "length gc = nat GB \<and> (\<forall>c\<in>set gc. 0 \<le> c \<and> c < int (net_n_columns net))"
      by simp
  qed
  from eq gb smp show ?thesis by blast
qed

text \<open>
  Instances: the ratio 0.5 on a batch of 2 (\<open>GB = 1\<close>), with and without
  \<open>consist_gdrop\<close>; the ratio - 0.25 on a batch of 2 (\<open>GB = 0\<close>, the ceiling of - 0.5);
  the ratio 0.7 on a batch of 10 (\<open>GB = 7\<close>); the ratio 0.29 on a batch of 100, where the
  float product is below 29 and \<open>GB = 28\<close>.
\<close>

theorem global_choice_policy_witness:
  "round64 (real (length [[0], [1::real]])) = Some 2
   \<and> round64 (gdrop_ratio ex_net) = Some (1 / 2)
   \<and> round64 (2 * (1 / 2)) = Some 1
   \<and> 0 \<le> gdrop_ratio ex_net
   \<and> compute_GB ex_net [[0], [1]] = Inr 1
   \<and> FractalNet_forward ex_net [[0], [1]] False ex_rng
        = spec_forward ex_net 1 [[0], [1]] False ex_rng
   \<and> map_sum id fst (spec_forward ex_net 1 [[0], [1]] False ex_rng) = Inr [[7 / 4], [13 / 4]]
   \<and> FractalNet_forward ex_net_consistent [[0], [1]] False ex_rng
        = spec_forward ex_net_consistent 1 [[0], [1]] False ex_rng
   \<and> randint 0 (int (net_n_columns ex_net)) 1 ex_rng = Inr ([1], advance 1 ex_rng)
   \<and> length [1 :: int] = nat 1
   \<and> round64 (gdrop_ratio ex_net_negative) = Some (- (1 / 4))
   \<and> round64 (2 * - (1 / 4)) = Some (- (1 / 2))
   \<and> gdrop_ratio ex_net_negative \<le> 0
   \<and> compute_GB ex_net_negative [[0], [1]] = Inr \<lceil>- (1 / 2) :: real\<rceil>
   \<and> round64 (real (length (replicate 10 [0::real]))) = Some 10
   \<and> round64 (gdrop_ratio ex_net_07) = Some (3152519739159347 / 4503599627370496)
   \<and> round64 (10 * (3152519739159347 / 4503599627370496)) = Some 7
   \<and> compute_GB ex_net_07 (replicate 10 [0]) = Inr 7
   \<and> round64 (real (length (replicate 100 [0::real]))) = Some 100
   \<and> round64 (gdrop_ratio ex_net_029) = Some (5224175567749775 / 18014398509481984)
   \<and> round64 (100 * (5224175567749775 / 18014398509481984))
        = Some (8162774324609023 / 281474976710656)
   \<and> compute_GB ex_net_029 (replicate 100 [0]) = Inr 28"
proof -
  note t = global_choice_policy[of ex_net "[[0], [1]]" False ex_rng]
  note tc = global_choice_policy[of ex_net_consistent "[[0], [1]]" False ex_rng]
  note tn = global_choice_policy[of ex_net_negative "[[0], [1]]" False ex_rng]
  note t7 = global_choice_policy[of ex_net_07 "replicate 10 [0]" False ex_rng]
  note t29 = global_choice_policy[of ex_net_029 "replicate 100 [0]" False ex_rng]
  have a1: "round64 (real (length [[0], [1::real]])) = Some 2" by (rule round64_length_2)
  have a2: "round64 (gdrop_ratio ex_net) = Some (1 / 2)" by (simp add: ex_net_def round64_half)
  have a3: "round64 (2 * (1 / 2)) = Some 1" by (rule round64_1)
  have a4: "0 \<le> gdrop_ratio ex_net" by (simp add: ex_net_def)
  from t[THEN conjunct2, THEN conjunct1, rule_format, of 2 "1 / 2" 1] a1 a2 a3
  have g: "compute_GB ex_net [[0], [1]] = Inr (py_int 1)
       \<and> (0 \<le> gdrop_ratio ex_net \<longrightarrow> py_int 1 = \<lfloor>1 :: real\<rfloor>)
       \<and> (gdrop_ratio ex_net \<le> 0 \<longrightarrow> py_int 1 = \<lceil>1 :: real\<rceil>)"
    by blast
  from g a4 have a5: "compute_GB ex_net [[0], [1]] = Inr 1" by simp
  have a6: "FractalNet_forward ex_net [[0], [1]] False ex_rng
        = spec_forward ex_net 1 [[0], [1]] False ex_rng"
    using t[THEN conjunct1] a5 by simp
  have a7: "map_sum id fst (spec_forward ex_net 1 [[0], [1]] False ex_rng)
        = Inr [[7 / 4], [13 / 4]]"
    using a6 ex_net_forward by simp
  have a8: "FractalNet_forward ex_net_consistent [[0], [1]] False ex_rng
        = spec_forward ex_net_consistent 1 [[0], [1]] False ex_rng"
    using tc[THEN conjunct1] ex_net_consistent_GB by simp
  have a9: "randint 0 (int (net_n_columns ex_net)) 1 ex_rng = Inr ([1], advance 1 ex_rng)"
    by (rule ex_randint)
  from t[THEN conjunct2, THEN conjunct2, rule_format, of 1 ex_rng "[1]" "advance 1 ex_rng"] a9
  have a10: "length [1 :: int] = nat 1" by blast
  have b1: "round64 (gdrop_ratio ex_net_negative) = Some (- (1 / 4))"
    by (simp add: ex_net_negative_def round64_minus_quarter)
  have b2: "round64 (2 * - (1 / 4)) = Some (- (1 / 2))" by (rule round64_minus_half)
  have b3: "gdrop_ratio ex_net_negative \<le> 0" by (simp add: ex_net_negative_def)
  from tn[THEN conjunct2, THEN conjunct1, rule_format, of 2 "- (1 / 4)" "- (1 / 2)"] a1 b1 b2
  have gn: "compute_GB ex_net_negative [[0], [1]] = Inr (py_int (- (1 / 2)))
       \<and> (0 \<le> gdrop_ratio ex_net_negative \<longrightarrow> py_int (- (1 / 2)) = \<lfloor>- (1 / 2) :: real\<rfloor>)
       \<and> (gdrop_ratio ex_net_negative \<le> 0 \<longrightarrow> py_int (- (1 / 2)) = \<lceil>- (1 / 2) :: real\<rceil>)"
    by blast
  from gn b3 have b4: "compute_GB ex_net_negative [[0], [1]] = Inr \<lceil>- (1 / 2) :: real\<rceil>"
    by simp
  have c1: "round64 (real (length (replicate 10 [0::real]))) = Some 10" by (rule round64_length_10)
  have c2: "round64 (gdrop_ratio ex_net_07) = Some (3152519739159347 / 4503599627370496)"
    by (simp add: ex_net_07_def round64_07)
  have c3: "round64 (10 * (3152519739159347 / 4503599627370496)) = Some 7"
    by (rule round64_07_product)
  from t7[THEN conjunct2, THEN conjunct1, rule_format,
      of 10 "3152519739159347 / 4503599627370496" 7] c1 c2 c3
  have "compute_GB ex_net_07 (replicate 10 [0]) = Inr (py_int 7)" by blast
  then have c4: "compute_GB ex_net_07 (replicate 10 [0]) = Inr 7" by (simp add: py_int_def)
  have d1: "round64 (real (length (replicate 100 [0::real]))) = Some 100" by (rule round64_length_100)
  have d2: "round64 (gdrop_ratio ex_net_029) = Some (5224175567749775 / 18014398509481984)"
    by (simp add: ex_net_029_def round64_029)
  have d3: "round64 (100 * (5224175567749775 / 18014398509481984))
        = Some (8162774324609023 / 281474976710656)"
    by (rule round64_029_product)
  from t29[THEN conjunct2, THEN conjunct1, rule_format,
      of 100 "5224175567749775 / 18014398509481984" "8162774324609023 / 281474976710656"]
    d1 d2 d3
  have "compute_GB ex_net_029 (replicate 100 [0])
      = Inr (py_int (8162774324609023 / 281474976710656))" by blast
  then have d4: "compute_GB ex_net_029 (replicate 100 [0]) = Inr 28"
    by (simp add: py_int_def)
  from a1 a2 a3 a4 a5 a6 a7 a8 a9 a10 b1 b2 b3 b4 c1 c2 c3 c4 d1 d2 d3 d4
  show ?thesis by (intro conjI)
qed

text \<open>
  The claim as stated, \<open>GB = floor (B * gdrop_ratio)\<close>, fails. For the ratio - 0.25 and a
  batch of 2 the pass runs with \<open>GB = 0\<close> and returns a tensor, and the floor of the
  product is - 1. For the ratio 0.29 and a batch of 100, \<open>GB\<close> is 28 and the floor of the
  product of the numbers 100 and 29 / 100 is 29.
\<close>

theorem global_choice_policy_counterexample:
  "compute_GB ex_net_negative [[0], [1]] = Inr 0
   \<and> \<lfloor>real (length [[0], [1::real]]) * gdrop_ratio ex_net_negative\<rfloor> = - 1
   \<and> map_sum id fst (FractalNet_forward ex_net_negative [[0], [1]] False ex_rng)
        = Inr [[7 / 4], [13 / 4]]
   \<and> compute_GB ex_net_029 (replicate 100 [0]) = Inr 28
   \<and> \<lfloor>real (length (replicate 100 [0::real])) * gdrop_ratio ex_net_029\<rfloor> = 29"
proof -
  have a: "compute_GB ex_net_negative [[0], [1]] = Inr 0" by (rule ex_GB_negative)
  have b: "\<lfloor>real (length [[0], [1::real]]) * gdrop_ratio ex_net_negative\<rfloor> = - 1"
    by (simp add: ex_net_negative_def)
  have c: "map_sum id fst (FractalNet_forward ex_net_negative [[0], [1]] False ex_rng)
        = Inr [[7 / 4], [13 / 4]]"
    by (simp add: FractalNet_forward_GB[OF ex_GB_negative] ex_net_negative_loop)
  have d: "compute_GB ex_net_029 (replicate 100 [0]) = Inr 28" by (rule ex_GB_029)
  have e: "\<lfloor>real (length (replicate 100 [0::real])) * gdrop_ratio ex_net_029\<rfloor> = 29"
    by (simp add: ex_net_029_def)
  from a b c d e show ?thesis by (intro conjI)
qed

end
